theory Spec2Isabelle
  imports Main "HOL-Library.Multiset"
begin

section \<open>Fixed-capacity binary heaps: the model\<close>

text \<open>
  The repository holds two classes, \<^verbatim>\<open>MaxHeap\<close> (max-heap.cpp) and \<^verbatim>\<open>MinHeap\<close>
  (min-heap.cpp). Both have the same three private fields, so one record serves both:
  \<^item> \<open>heap\<close>: the \<^verbatim>\<open>vector<int>\<close>, a list addressed from index 0, slot 0 unused;
  \<^item> \<open>heapSize\<close>: the capacity given to the constructor;
  \<^item> \<open>realSize\<close>: the number of stored elements.

  Elements are C++ \<^verbatim>\<open>int\<close>s. The code only stores, copies and compares them (there is no
  arithmetic on an element), so they are modelled as \<open>int\<close>, with the two constants of
  \<^verbatim>\<open><climits>\<close> the code returns written out. Sizes and indices are \<open>nat\<close>: with a
  capacity below \<^verbatim>\<open>INT_MAX\<close> no index computation of the code (\<^verbatim>\<open>realSize++\<close>,
  \<^verbatim>\<open>index * 2\<close>, \<^verbatim>\<open>left + 1\<close>) leaves the range of \<^verbatim>\<open>int\<close>.
\<close>

definition INT_MAX :: int where
  "INT_MAX = 2147483647"

definition INT_MIN :: int where
  "INT_MIN = - 2147483648"

record heap_obj =
  heap :: "int list"
  heapSize :: nat
  realSize :: nat

text \<open>
  The constructors (max-heap.cpp:44-47, min-heap.cpp:30-33): \<^verbatim>\<open>heap.resize(heapSize + 1)\<close>
  value-initialises every slot to 0, then \<^verbatim>\<open>heap[0] = 0\<close>. A negative capacity makes
  \<^verbatim>\<open>resize\<close> throw or \<^verbatim>\<open>heap[0]\<close> a write out of range, and \<^verbatim>\<open>INT_MAX + 1\<close> overflows:
  no heap object results, which is \<open>None\<close> here.
\<close>

definition MaxHeap_init :: "int \<Rightarrow> heap_obj option" where
  "MaxHeap_init capacity =
     (if 0 \<le> capacity \<and> capacity < INT_MAX
      then Some \<lparr>heap = (replicate (nat capacity + 1) 0)[0 := 0],
                  heapSize = nat capacity, realSize = 0\<rparr>
      else None)"

definition MinHeap_init :: "int \<Rightarrow> heap_obj option" where
  "MinHeap_init capacity =
     (if 0 \<le> capacity \<and> capacity < INT_MAX
      then Some \<lparr>heap = (replicate (nat capacity + 1) 0)[0 := 0],
                  heapSize = nat capacity, realSize = 0\<rparr>
      else None)"

text \<open>\<^verbatim>\<open>swap(heap[i], heap[j])\<close>: slot \<open>i\<close> receives the old slot \<open>j\<close>, then slot \<open>j\<close> the
  old slot \<open>i\<close>.\<close>

definition swap :: "int list \<Rightarrow> nat \<Rightarrow> nat \<Rightarrow> int list" where
  "swap h i j = h[i := h ! j, j := h ! i]"

text \<open>
  \<^verbatim>\<open>heap[i]\<close> on a \<^verbatim>\<open>vector\<close> is defined only for \<open>i\<close> below its size. The methods index
  the vector as follows: \<^verbatim>\<open>add\<close> at \<open>realSize + 1 \<le> heapSize\<close> and, in its loop, at
  \<open>index\<close> and \<open>index / 2\<close> with \<open>index\<close> at most that; \<^verbatim>\<open>peek\<close> at 1 when
  \<open>realSize \<ge> 1\<close>; \<^verbatim>\<open>pop\<close> at 1 and \<open>realSize\<close> and, in its loop, at \<open>index\<close>,
  \<open>left\<close> and \<open>right\<close>, the first two at most \<open>realSize\<close> by the loop condition and
  the third read only after the test \<^verbatim>\<open>right > realSize\<close> has failed; \<^verbatim>\<open>toString\<close> at 1 to
  \<open>realSize\<close>. So every index is inside the vector when the object is well formed: the
  vector has \<open>heapSize + 1\<close> slots and \<open>realSize \<le> heapSize\<close>. The constructors
  establish this and every call keeps it (\<open>MaxHeap_init_Some\<close>, \<open>MaxHeap_run_invariant\<close>
  and their MinHeap counterparts), so the objects a program can hold are the well-formed
  ones, and properties that depend on the content of the vector are stated for them.
\<close>

definition well_formed :: "heap_obj \<Rightarrow> bool" where
  "well_formed s = (length (heap s) = heapSize s + 1 \<and> realSize s \<le> heapSize s)"

subsection \<open>MaxHeap\<close>

text \<open>
  The bubble-up loop of \<^verbatim>\<open>MaxHeap::add\<close> (max-heap.cpp:70-78). The local \<^verbatim>\<open>parent\<close> is
  \<^verbatim>\<open>index / 2\<close> each time the loop condition is tested (lines 71 and 77), so it is a
  \<open>let\<close> here. The condition short-circuits: slot \<open>index\<close> is compared only when
  \<open>index > 1\<close>.
\<close>

function MaxHeap_add_loop :: "int list \<Rightarrow> nat \<Rightarrow> int list" where
  "MaxHeap_add_loop h index =
     (let parent = index div 2 in
      if index > 1 \<and> h ! index > h ! parent
      then MaxHeap_add_loop (swap h index parent) parent
      else h)"
  by pat_completeness auto
termination
  by (relation "measure (\<lambda>(h, index). index)") auto

text \<open>
  \<^verbatim>\<open>MaxHeap::add\<close> (max-heap.cpp:56-79). It returns \<^verbatim>\<open>void\<close>; the model returns the lines
  written to \<^verbatim>\<open>cout\<close> and the object after the call.
\<close>

definition MaxHeap_add :: "heap_obj \<Rightarrow> int \<Rightarrow> string list \<times> heap_obj" where
  "MaxHeap_add s element =
     (let rs = realSize s + 1 in
      if rs > heapSize s
      then ([''Added too many Elements!''], s\<lparr>realSize := rs - 1\<rparr>)
      else ([], s\<lparr>heap := MaxHeap_add_loop ((heap s)[rs := element]) rs, realSize := rs\<rparr>))"

text \<open>\<^verbatim>\<open>MaxHeap::peek\<close> (max-heap.cpp:87-93), a \<^verbatim>\<open>const\<close> method: returned value and
  output.\<close>

definition MaxHeap_peek :: "heap_obj \<Rightarrow> int \<times> string list" where
  "MaxHeap_peek s =
     (if realSize s < 1 then (INT_MAX, [''Don't have any element''])
      else (heap s ! 1, []))"

text \<open>
  The bubble-down loop of \<^verbatim>\<open>MaxHeap::pop\<close> (max-heap.cpp:120-149); \<open>rs\<close> is the field
  \<^verbatim>\<open>realSize\<close> after its decrement. A \<^verbatim>\<open>break\<close> returns the vector as it is.
\<close>

function MaxHeap_pop_loop :: "int list \<Rightarrow> nat \<Rightarrow> nat \<Rightarrow> int list" where
  "MaxHeap_pop_loop h rs index =
     (if index \<le> rs div 2 then
        (let left = index * 2; right = left + 1 in
         if right > rs then
           (if h ! index < h ! left
            then MaxHeap_pop_loop (swap h index left) rs left
            else h)
         else
           (if h ! index < h ! left \<or> h ! index < h ! right then
              (if h ! left > h ! right
               then MaxHeap_pop_loop (swap h index left) rs left
               else MaxHeap_pop_loop (swap h index right) rs right)
            else h))
      else h)"
  by pat_completeness auto
termination
proof (relation "measure (\<lambda>(h, rs, index). rs - index)", goal_cases)
  case 1
  show ?case by simp
next
  case (2 h rs index left right)
  then show ?case by (cases index) auto
next
  case (3 h rs index left right)
  then show ?case by (cases index) auto
next
  case (4 h rs index left right)
  then show ?case by (cases index) auto
qed

text \<open>\<^verbatim>\<open>MaxHeap::pop\<close> (max-heap.cpp:103-151): returned value, output, object after the
  call.\<close>

definition MaxHeap_pop :: "heap_obj \<Rightarrow> int \<times> string list \<times> heap_obj" where
  "MaxHeap_pop s =
     (if realSize s < 1 then (INT_MIN, [''Don't have any element''], s)
      else
        (let removeElement = heap s ! 1;
             h1 = (heap s)[1 := heap s ! realSize s];
             rs = realSize s - 1
         in (removeElement, [], s\<lparr>heap := MaxHeap_pop_loop h1 rs 1, realSize := rs\<rparr>)))"

text \<open>\<^verbatim>\<open>MaxHeap::size\<close> (max-heap.cpp:157-159).\<close>

definition MaxHeap_size :: "heap_obj \<Rightarrow> int" where
  "MaxHeap_size s = int (realSize s)"

text \<open>
  \<^verbatim>\<open>oss << heap[i]\<close> writes an \<^verbatim>\<open>int\<close> in decimal, with a minus sign when negative and no
  padding (the stream is in its default state).
\<close>

function show_nat :: "nat \<Rightarrow> string" where
  "show_nat n =
     (if n < 10 then [''0123456789'' ! n]
      else show_nat (n div 10) @ [''0123456789'' ! (n mod 10)])"
  by pat_completeness auto
termination
  by (relation "measure (\<lambda>n. n)") auto

definition show_int :: "int \<Rightarrow> string" where
  "show_int i = (if i < 0 then CHR ''-'' # show_nat (nat (- i)) else show_nat (nat i))"

text \<open>
  The \<^verbatim>\<open>for\<close> loop of \<^verbatim>\<open>toString\<close> (max-heap.cpp:177-182, min-heap.cpp:144-149, the same
  text in both files); \<open>oss\<close> is what the string stream holds so far.
\<close>

function toString_loop :: "int list \<Rightarrow> nat \<Rightarrow> nat \<Rightarrow> string \<Rightarrow> string" where
  "toString_loop h rs i oss =
     (if i \<le> rs then
        (let oss1 = oss @ show_int (h ! i);
             oss2 = (if i < rs then oss1 @ '','' else oss1)
         in toString_loop h rs (i + 1) oss2)
      else oss)"
  by pat_completeness auto
termination
  by (relation "measure (\<lambda>(h, rs, i, oss). Suc rs - i)") auto

text \<open>\<^verbatim>\<open>MaxHeap::toString\<close> (max-heap.cpp:168-185).\<close>

definition MaxHeap_toString :: "heap_obj \<Rightarrow> string" where
  "MaxHeap_toString s =
     (if realSize s = 0 then ''No element!''
      else toString_loop (heap s) (realSize s) 1 ''['' @ '']'')"

subsection \<open>MinHeap\<close>

text \<open>The bubble-up loop of \<^verbatim>\<open>MinHeap::add\<close> (min-heap.cpp:54-61).\<close>

function MinHeap_add_loop :: "int list \<Rightarrow> nat \<Rightarrow> int list" where
  "MinHeap_add_loop h index =
     (let parent = index div 2 in
      if index > 1 \<and> h ! index < h ! parent
      then MinHeap_add_loop (swap h index parent) parent
      else h)"
  by pat_completeness auto
termination
  by (relation "measure (\<lambda>(h, index). index)") auto

text \<open>\<^verbatim>\<open>MinHeap::add\<close> (min-heap.cpp:40-62).\<close>

definition MinHeap_add :: "heap_obj \<Rightarrow> int \<Rightarrow> string list \<times> heap_obj" where
  "MinHeap_add s element =
     (let rs = realSize s + 1 in
      if rs > heapSize s
      then ([''Added too many Elements!''], s\<lparr>realSize := rs - 1\<rparr>)
      else ([], s\<lparr>heap := MinHeap_add_loop ((heap s)[rs := element]) rs, realSize := rs\<rparr>))"

text \<open>\<^verbatim>\<open>MinHeap::peek\<close> (min-heap.cpp:68-74).\<close>

definition MinHeap_peek :: "heap_obj \<Rightarrow> int \<times> string list" where
  "MinHeap_peek s =
     (if realSize s < 1 then (INT_MAX, [''Don't have any element''])
      else (heap s ! 1, []))"

text \<open>The bubble-down loop of \<^verbatim>\<open>MinHeap::pop\<close> (min-heap.cpp:93-121).\<close>

function MinHeap_pop_loop :: "int list \<Rightarrow> nat \<Rightarrow> nat \<Rightarrow> int list" where
  "MinHeap_pop_loop h rs index =
     (if index \<le> rs div 2 then
        (let left = index * 2; right = left + 1 in
         if right > rs then
           (if h ! index > h ! left
            then MinHeap_pop_loop (swap h index left) rs left
            else h)
         else
           (if h ! index > h ! left \<or> h ! index > h ! right then
              (if h ! left < h ! right
               then MinHeap_pop_loop (swap h index left) rs left
               else MinHeap_pop_loop (swap h index right) rs right)
            else h))
      else h)"
  by pat_completeness auto
termination
proof (relation "measure (\<lambda>(h, rs, index). rs - index)", goal_cases)
  case 1
  show ?case by simp
next
  case (2 h rs index left right)
  then show ?case by (cases index) auto
next
  case (3 h rs index left right)
  then show ?case by (cases index) auto
next
  case (4 h rs index left right)
  then show ?case by (cases index) auto
qed

text \<open>\<^verbatim>\<open>MinHeap::pop\<close> (min-heap.cpp:81-123).\<close>

definition MinHeap_pop :: "heap_obj \<Rightarrow> int \<times> string list \<times> heap_obj" where
  "MinHeap_pop s =
     (if realSize s < 1 then (INT_MAX, [''Don't have any element''], s)
      else
        (let removeElement = heap s ! 1;
             h1 = (heap s)[1 := heap s ! realSize s];
             rs = realSize s - 1
         in (removeElement, [], s\<lparr>heap := MinHeap_pop_loop h1 rs 1, realSize := rs\<rparr>)))"

text \<open>\<^verbatim>\<open>MinHeap::size\<close> (min-heap.cpp:129-131).\<close>

definition MinHeap_size :: "heap_obj \<Rightarrow> int" where
  "MinHeap_size s = int (realSize s)"

text \<open>\<^verbatim>\<open>MinHeap::toString\<close> (min-heap.cpp:137-152).\<close>

definition MinHeap_toString :: "heap_obj \<Rightarrow> string" where
  "MinHeap_toString s =
     (if realSize s = 0 then ''No element!''
      else toString_loop (heap s) (realSize s) 1 ''['' @ '']'')"

subsection \<open>Sequences of calls\<close>

text \<open>
  A caller drives a heap through its five public methods, as the two \<^verbatim>\<open>main\<close> functions
  do. A call yields what the method returns (\<open>Void\<close> for \<^verbatim>\<open>add\<close>), the lines it writes to
  \<^verbatim>\<open>cout\<close>, and the object afterwards (unchanged by the \<^verbatim>\<open>const\<close> methods).
\<close>

datatype call = Add int | Peek | Pop | Size | ToString

datatype retval = Void | IntVal int | StrVal string

fun MaxHeap_call :: "heap_obj \<Rightarrow> call \<Rightarrow> (retval \<times> string list) \<times> heap_obj" where
  "MaxHeap_call s (Add element) = (case MaxHeap_add s element of (out, s') \<Rightarrow> ((Void, out), s'))"
| "MaxHeap_call s Peek = (case MaxHeap_peek s of (v, out) \<Rightarrow> ((IntVal v, out), s))"
| "MaxHeap_call s Pop = (case MaxHeap_pop s of (v, out, s') \<Rightarrow> ((IntVal v, out), s'))"
| "MaxHeap_call s Size = ((IntVal (MaxHeap_size s), []), s)"
| "MaxHeap_call s ToString = ((StrVal (MaxHeap_toString s), []), s)"

fun MinHeap_call :: "heap_obj \<Rightarrow> call \<Rightarrow> (retval \<times> string list) \<times> heap_obj" where
  "MinHeap_call s (Add element) = (case MinHeap_add s element of (out, s') \<Rightarrow> ((Void, out), s'))"
| "MinHeap_call s Peek = (case MinHeap_peek s of (v, out) \<Rightarrow> ((IntVal v, out), s))"
| "MinHeap_call s Pop = (case MinHeap_pop s of (v, out, s') \<Rightarrow> ((IntVal v, out), s'))"
| "MinHeap_call s Size = ((IntVal (MinHeap_size s), []), s)"
| "MinHeap_call s ToString = ((StrVal (MinHeap_toString s), []), s)"

text \<open>Running a list of calls in order: the results of the calls, and the final object.\<close>

fun MaxHeap_run :: "heap_obj \<Rightarrow> call list \<Rightarrow> (retval \<times> string list) list \<times> heap_obj" where
  "MaxHeap_run s [] = ([], s)"
| "MaxHeap_run s (c # cs) =
     (case MaxHeap_call s c of (r, s') \<Rightarrow>
        (case MaxHeap_run s' cs of (rs, s'') \<Rightarrow> (r # rs, s'')))"

fun MinHeap_run :: "heap_obj \<Rightarrow> call list \<Rightarrow> (retval \<times> string list) list \<times> heap_obj" where
  "MinHeap_run s [] = ([], s)"
| "MinHeap_run s (c # cs) =
     (case MinHeap_call s c of (r, s') \<Rightarrow>
        (case MinHeap_run s' cs of (rs, s'') \<Rightarrow> (r # rs, s'')))"

section \<open>Invariants and observations\<close>

text \<open>
  The order of a max-heap on slots 1 to \<open>n\<close> of a vector, and the two weakenings that
  hold while a loop runs. During the bubble-up loop the order may fail between slot \<open>i\<close>
  and its parent only, and the children of \<open>i\<close> are already below the parent of \<open>i\<close>.
  During the bubble-down loop the order may fail between slot \<open>i\<close> and its children
  only, and these children are already below the parent of \<open>i\<close>.
\<close>

definition max_ordered :: "int list \<Rightarrow> nat \<Rightarrow> bool" where
  "max_ordered h n = (\<forall>k. 2 \<le> k \<and> k \<le> n \<longrightarrow> h ! k \<le> h ! (k div 2))"

definition up_except :: "int list \<Rightarrow> nat \<Rightarrow> nat \<Rightarrow> bool" where
  "up_except h n i =
     ((\<forall>k. 2 \<le> k \<and> k \<le> n \<and> k \<noteq> i \<longrightarrow> h ! k \<le> h ! (k div 2)) \<and>
      (\<forall>k. 2 \<le> k \<and> k \<le> n \<and> k div 2 = i \<and> 2 \<le> i \<longrightarrow> h ! k \<le> h ! (i div 2)))"

definition down_except :: "int list \<Rightarrow> nat \<Rightarrow> nat \<Rightarrow> bool" where
  "down_except h n i =
     ((\<forall>k. 2 \<le> k \<and> k \<le> n \<and> k div 2 \<noteq> i \<longrightarrow> h ! k \<le> h ! (k div 2)) \<and>
      (\<forall>k. 2 \<le> k \<and> k \<le> n \<and> k div 2 = i \<and> 2 \<le> i \<longrightarrow> h ! k \<le> h ! (i div 2)))"

text \<open>
  The heap property of the two classes, on the slots in use: every slot from 2 to
  \<open>realSize\<close> is not above (MaxHeap) or not below (MinHeap) its parent slot \<open>i div 2\<close>.
\<close>

definition MaxHeap_property :: "heap_obj \<Rightarrow> bool" where
  "MaxHeap_property s = (\<forall>i \<in> {2..realSize s}. heap s ! (i div 2) \<ge> heap s ! i)"

definition MinHeap_property :: "heap_obj \<Rightarrow> bool" where
  "MinHeap_property s = (\<forall>i \<in> {2..realSize s}. heap s ! (i div 2) \<le> heap s ! i)"

text \<open>The stored sequence: slots 1 to \<open>realSize\<close> of the vector, in array order.\<close>

definition stored :: "heap_obj \<Rightarrow> int list" where
  "stored s = take (realSize s) (drop 1 (heap s))"

text \<open>What the loops keep of a vector \<open>h\<close>: its length and, as a multiset, the content
  of slots 1 to \<open>n\<close>.\<close>

definition keeps :: "nat \<Rightarrow> int list \<Rightarrow> int list \<Rightarrow> bool" where
  "keeps n h h' = (length h' = length h \<and> mset (take n (drop 1 h')) = mset (take n (drop 1 h)))"


text \<open>
  The MinHeap code is the MaxHeap code with every comparison of two elements reversed, so
  it acts on a vector as the MaxHeap code acts on the vector of the negated elements.
\<close>

definition negated :: "heap_obj \<Rightarrow> heap_obj" where
  "negated s = s\<lparr>heap := map uminus (heap s)\<rparr>"

text \<open>
  A call of \<^verbatim>\<open>add\<close> or \<^verbatim>\<open>pop\<close> is successful when it does not take the path that writes a
  message to \<^verbatim>\<open>cout\<close> and returns early (max-heap.cpp:60-64 and 104-107, min-heap.cpp:44-48
  and 82-85). The two counters go through a call sequence and the results of its calls.
\<close>

fun successful_adds :: "call list \<Rightarrow> (retval \<times> string list) list \<Rightarrow> nat" where
  "successful_adds (Add e # cs) ((v, out) # rs) =
     (if out = [] then 1 else 0) + successful_adds cs rs"
| "successful_adds (c # cs) (r # rs) = successful_adds cs rs"
| "successful_adds cs rs = 0"

fun successful_pops :: "call list \<Rightarrow> (retval \<times> string list) list \<Rightarrow> nat" where
  "successful_pops (Pop # cs) ((v, out) # rs) =
     (if out = [] then 1 else 0) + successful_pops cs rs"
| "successful_pops (c # cs) (r # rs) = successful_pops cs rs"
| "successful_pops cs rs = 0"

text \<open>What \<^verbatim>\<open>toString\<close> is to produce between the brackets: the elements in decimal,
  separated by single commas.\<close>

fun comma_join :: "string list \<Rightarrow> string" where
  "comma_join [] = []"
| "comma_join [x] = x"
| "comma_join (x # y # zs) = x @ '','' @ comma_join (y # zs)"

text \<open>
  Two objects show the same content when they agree on \<open>realSize\<close> and on slots 1 to
  \<open>realSize\<close>. Slot 0 and the slots above \<open>realSize\<close> (what a \<^verbatim>\<open>pop\<close> leaves behind) are
  free to differ.
\<close>

definition same_content :: "heap_obj \<Rightarrow> heap_obj \<Rightarrow> bool" where
  "same_content s t =
     (realSize s = realSize t \<and> (\<forall>i \<in> {1..realSize s}. heap s ! i = heap t ! i))"

text \<open>The same, on two vectors and up to slot \<open>n\<close>.\<close>

definition agree :: "nat \<Rightarrow> int list \<Rightarrow> int list \<Rightarrow> bool" where
  "agree n h h' = (\<forall>i. 1 \<le> i \<and> i \<le> n \<longrightarrow> h ! i = h' ! i)"

text \<open>Two well-formed objects that show the same content; their capacities may differ.\<close>

definition akin :: "heap_obj \<Rightarrow> heap_obj \<Rightarrow> bool" where
  "akin s t = (well_formed s \<and> well_formed t \<and> same_content s t)"

text \<open>
  \<^verbatim>\<open>add\<close> is the one method whose code reads \<^verbatim>\<open>heapSize\<close> (max-heap.cpp:60,
  min-heap.cpp:44). The calls of the four other methods:
\<close>

fun is_add :: "call \<Rightarrow> bool" where
  "is_add (Add element) = True"
| "is_add c = False"

section \<open>The loops restore the heap order\<close>

declare MaxHeap_add_loop.simps [simp del]
declare MaxHeap_pop_loop.simps [simp del]

lemma length_swap [simp]: "length (swap h i j) = length h"
  by (simp add: swap_def)

lemma swap_nth:
  "i < length h \<Longrightarrow> j < length h \<Longrightarrow>
   swap h i j ! k = (if k = j then h ! i else if k = i then h ! j else h ! k)"
  by (simp add: swap_def nth_list_update)

lemma up_except_swap:
  assumes len: "n < length h" and i: "2 \<le> i" "i \<le> n"
    and viol: "h ! (i div 2) < h ! i"
    and inv: "up_except h n i"
  shows "up_except (swap h i (i div 2)) n (i div 2)"
proof -
  let ?p = "i div 2"
  let ?h = "swap h i ?p"
  have pi: "?p < i" "1 \<le> ?p" using i by auto
  have nth: "\<And>k. ?h ! k = (if k = ?p then h ! i else if k = i then h ! ?p else h ! k)"
    using swap_nth [of i h ?p] len i pi by simp
  have A1: "\<And>k. 2 \<le> k \<Longrightarrow> k \<le> n \<Longrightarrow> k \<noteq> i \<Longrightarrow> h ! k \<le> h ! (k div 2)"
    using inv by (simp add: up_except_def)
  have A2: "\<And>k. 2 \<le> k \<Longrightarrow> k \<le> n \<Longrightarrow> k div 2 = i \<Longrightarrow> h ! k \<le> h ! ?p"
    using inv i by (simp add: up_except_def)
  have B1: "?h ! k \<le> ?h ! (k div 2)" if k: "2 \<le> k" "k \<le> n" "k \<noteq> ?p" for k
  proof (cases "k = i")
    case True
    then show ?thesis using viol nth by simp
  next
    case ki: False
    show ?thesis
    proof (cases "k div 2 = i")
      case True
      then have "k div 2 \<noteq> ?p" using pi by simp
      then show ?thesis using nth k ki True A2 [of k] by simp
    next
      case False
      show ?thesis
      proof (cases "k div 2 = ?p")
        case True
        have "h ! k \<le> h ! ?p" using A1 [of k] k ki True by simp
        then show ?thesis using nth k ki True viol by simp
      next
        case False
        then show ?thesis using nth k ki \<open>k div 2 \<noteq> i\<close> A1 [of k] by simp
      qed
    qed
  qed
  have B2: "?h ! k \<le> ?h ! (?p div 2)"
    if k: "2 \<le> k" "k \<le> n" "k div 2 = ?p" "2 \<le> ?p" for k
  proof -
    have pp: "?p div 2 \<noteq> ?p" "?p div 2 \<noteq> i" using k(4) pi by auto
    have p_le: "h ! ?p \<le> h ! (?p div 2)"
      using A1 [of ?p] k(4) pi i by simp
    have kp: "k \<noteq> ?p" using k by auto
    show ?thesis
    proof (cases "k = i")
      case True
      then show ?thesis using nth pp p_le kp by simp
    next
      case False
      then have "h ! k \<le> h ! ?p" using A1 [of k] k by simp
      then show ?thesis using nth pp p_le kp False by simp
    qed
  qed
  show ?thesis
    unfolding up_except_def using B1 B2 by blast
qed

lemma up_except_done:
  assumes "up_except h n i" "\<not> (1 < i \<and> h ! (i div 2) < h ! i)"
  shows "max_ordered h n"
  unfolding max_ordered_def
proof (intro allI impI)
  fix k assume k: "2 \<le> k \<and> k \<le> n"
  show "h ! k \<le> h ! (k div 2)"
  proof (cases "k = i")
    case True
    then show ?thesis using assms(2) k by auto
  next
    case False
    then show ?thesis using assms(1) k by (simp add: up_except_def)
  qed
qed

lemma MaxHeap_add_loop_step:
  "1 < i \<Longrightarrow> h ! (i div 2) < h ! i \<Longrightarrow>
   MaxHeap_add_loop h i = MaxHeap_add_loop (swap h i (i div 2)) (i div 2)"
  by (subst MaxHeap_add_loop.simps) (simp add: Let_def)

lemma MaxHeap_add_loop_stop:
  "\<not> (1 < i \<and> h ! (i div 2) < h ! i) \<Longrightarrow> MaxHeap_add_loop h i = h"
  by (subst MaxHeap_add_loop.simps) (auto simp add: Let_def)

lemma MaxHeap_add_loop_ordered:
  "n < length h \<Longrightarrow> i \<le> n \<Longrightarrow> up_except h n i \<Longrightarrow> max_ordered (MaxHeap_add_loop h i) n"
proof (induction h i rule: MaxHeap_add_loop.induct)
  case (1 h index)
  show ?case
  proof (cases "1 < index \<and> h ! (index div 2) < h ! index")
    case True
    have "up_except (swap h index (index div 2)) n (index div 2)"
      using up_except_swap [of n h index] True "1.prems" by simp
    then have "max_ordered (MaxHeap_add_loop (swap h index (index div 2)) (index div 2)) n"
      using "1.IH" [of "index div 2"] True "1.prems" by simp
    then show ?thesis
      using True by (simp add: MaxHeap_add_loop_step)
  next
    case False
    then show ?thesis
      using up_except_done [OF "1.prems"(3) False] by (simp add: MaxHeap_add_loop_stop)
  qed
qed

lemma down_except_swap:
  assumes len: "n < length h" and i: "1 \<le> i" and c: "c div 2 = i" "c \<le> n"
    and viol: "h ! i < h ! c"
    and big: "\<And>k. k \<le> n \<Longrightarrow> k div 2 = i \<Longrightarrow> h ! k \<le> h ! c"
    and inv: "down_except h n i"
  shows "down_except (swap h i c) n c"
proof -
  let ?h = "swap h i c"
  have ic: "i < c" "2 \<le> c" using i c by auto
  have nth: "\<And>k. ?h ! k = (if k = c then h ! i else if k = i then h ! c else h ! k)"
    using swap_nth [of i h c] len c ic by simp
  have A1: "\<And>k. 2 \<le> k \<Longrightarrow> k \<le> n \<Longrightarrow> k div 2 \<noteq> i \<Longrightarrow> h ! k \<le> h ! (k div 2)"
    using inv by (simp add: down_except_def)
  have A2: "\<And>k. 2 \<le> k \<Longrightarrow> k \<le> n \<Longrightarrow> k div 2 = i \<Longrightarrow> 2 \<le> i \<Longrightarrow> h ! k \<le> h ! (i div 2)"
    using inv by (simp add: down_except_def)
  have B1: "?h ! k \<le> ?h ! (k div 2)" if k: "2 \<le> k" "k \<le> n" "k div 2 \<noteq> c" for k
  proof (cases "k = c")
    case True
    then show ?thesis using viol nth c ic by simp
  next
    case kc: False
    show ?thesis
    proof (cases "k = i")
      case True
      then have i2: "2 \<le> i" "i div 2 \<noteq> i" "i div 2 \<noteq> c" using k ic by auto
      have "h ! c \<le> h ! (i div 2)" using A2 [of c] c ic i2 by simp
      then show ?thesis using nth True i2 ic by simp
    next
      case ki: False
      show ?thesis
      proof (cases "k div 2 = i")
        case True
        then show ?thesis using nth kc ki big [of k] k ic by simp
      next
        case False
        then show ?thesis using nth kc ki k A1 [of k] by simp
      qed
    qed
  qed
  have B2: "?h ! k \<le> ?h ! (c div 2)" if k: "2 \<le> k" "k \<le> n" "k div 2 = c" for k
  proof -
    have "k \<noteq> c" "k \<noteq> i" "k div 2 \<noteq> i" using k ic by auto
    then show ?thesis using nth A1 [of k] k c ic by simp
  qed
  show ?thesis
    unfolding down_except_def using B1 B2 by blast
qed

lemma down_except_done:
  assumes "down_except h n i" "\<And>k. 2 \<le> k \<Longrightarrow> k \<le> n \<Longrightarrow> k div 2 = i \<Longrightarrow> h ! k \<le> h ! i"
  shows "max_ordered h n"
  unfolding max_ordered_def
proof (intro allI impI)
  fix k assume k: "2 \<le> k \<and> k \<le> n"
  show "h ! k \<le> h ! (k div 2)"
  proof (cases "k div 2 = i")
    case True
    then show ?thesis using assms(2) [of k] k by auto
  next
    case False
    then show ?thesis using assms(1) k by (simp add: down_except_def)
  qed
qed

lemma children: "k div 2 = i \<longleftrightarrow> k = i * 2 \<or> k = i * 2 + 1" for k i :: nat
  by presburger

lemma MaxHeap_pop_loop_ordered:
  "n < length h \<Longrightarrow> 1 \<le> i \<Longrightarrow> down_except h n i \<Longrightarrow> max_ordered (MaxHeap_pop_loop h n i) n"
proof (induction h n i rule: MaxHeap_pop_loop.induct)
  case (1 h rs index)
  let ?l = "index * 2" and ?r = "index * 2 + 1"
  note inv = "1.prems"(3)
  show ?case
  proof (cases "index \<le> rs div 2")
    case False
    then have "MaxHeap_pop_loop h rs index = h"
      by (subst MaxHeap_pop_loop.simps) simp
    moreover have "max_ordered h rs"
      using False by (intro down_except_done [OF inv]) (auto simp: children)
    ultimately show ?thesis by simp
  next
    case inner: True
    then have l: "?l \<le> rs" "?l div 2 = index" by auto
    show ?thesis
    proof (cases "?r > rs")
      case only_left: True
      show ?thesis
      proof (cases "h ! index < h ! ?l")
        case True
        have eq: "MaxHeap_pop_loop h rs index = MaxHeap_pop_loop (swap h index ?l) rs ?l"
          using inner only_left True by (subst MaxHeap_pop_loop.simps) (simp add: Let_def)
        have "down_except (swap h index ?l) rs ?l"
          using "1.prems" l True only_left
          by (intro down_except_swap) (auto simp: children)
        then show ?thesis
          using "1.IH"(1) [OF inner refl refl _ True] only_left "1.prems" eq by simp
      next
        case False
        have eq: "MaxHeap_pop_loop h rs index = h"
          using inner only_left False by (subst MaxHeap_pop_loop.simps) (simp add: Let_def)
        have "max_ordered h rs"
          using False only_left by (intro down_except_done [OF inv]) (auto simp: children)
        then show ?thesis using eq by simp
      qed
    next
      case both: False
      then have r: "?r \<le> rs" "?r div 2 = index" by auto
      show ?thesis
      proof (cases "h ! index < h ! ?l \<or> h ! index < h ! ?r")
        case viol: True
        show ?thesis
        proof (cases "h ! ?l > h ! ?r")
          case True
          have eq: "MaxHeap_pop_loop h rs index = MaxHeap_pop_loop (swap h index ?l) rs ?l"
            using inner both viol True by (subst MaxHeap_pop_loop.simps) (simp add: Let_def)
          have "down_except (swap h index ?l) rs ?l"
            using "1.prems" l True viol
            by (intro down_except_swap) (auto simp: children)
          then show ?thesis
            using "1.IH"(2) [OF inner refl refl both viol True] "1.prems" eq by simp
        next
          case False
          have eq: "MaxHeap_pop_loop h rs index = MaxHeap_pop_loop (swap h index ?r) rs ?r"
            using inner both viol False by (subst MaxHeap_pop_loop.simps) (simp add: Let_def)
          have "down_except (swap h index ?r) rs ?r"
            using "1.prems" r False viol
            by (intro down_except_swap) (auto simp: children)
          then show ?thesis
            using "1.IH"(3) [OF inner refl refl both viol False] "1.prems" eq by simp
        qed
      next
        case False
        have eq: "MaxHeap_pop_loop h rs index = h"
          using inner both False by (subst MaxHeap_pop_loop.simps) (simp add: Let_def)
        have "max_ordered h rs"
          using False by (intro down_except_done [OF inv]) (auto simp: children)
        then show ?thesis using eq by simp
      qed
    qed
  qed
qed

section \<open>The loops only swap slots in use\<close>

lemma MaxHeap_add_loop_swaps:
  assumes "i \<le> n" "P h"
    and "\<And>h a b. P h \<Longrightarrow> 1 \<le> a \<Longrightarrow> a \<le> n \<Longrightarrow> 1 \<le> b \<Longrightarrow> b \<le> n \<Longrightarrow> P (swap h a b)"
  shows "P (MaxHeap_add_loop h i)"
  using assms(1,2)
proof (induction h i rule: MaxHeap_add_loop.induct)
  case (1 h index)
  show ?case
  proof (cases "1 < index \<and> h ! (index div 2) < h ! index")
    case True
    then have "1 \<le> index" "1 \<le> index div 2" "index div 2 \<le> n" "index \<le> n"
      using "1.prems"(1) by auto
    then have "P (swap h index (index div 2))"
      using assms(3) [OF "1.prems"(2), of index "index div 2"] by simp
    then show ?thesis
      using "1.IH" [of "index div 2"] True \<open>index div 2 \<le> n\<close>
      by (simp add: MaxHeap_add_loop_step)
  next
    case False
    then show ?thesis using "1.prems" by (simp add: MaxHeap_add_loop_stop)
  qed
qed

lemma MaxHeap_pop_loop_swaps:
  assumes "1 \<le> i" "P h"
    and "\<And>h a b. P h \<Longrightarrow> 1 \<le> a \<Longrightarrow> a \<le> n \<Longrightarrow> 1 \<le> b \<Longrightarrow> b \<le> n \<Longrightarrow> P (swap h a b)"
  shows "P (MaxHeap_pop_loop h n i)"
  using assms
proof (induction h n i rule: MaxHeap_pop_loop.induct)
  case (1 h rs index)
  note sw = "1.prems"(3)
  have step: "P (swap h index c)" if "1 \<le> c" "c \<le> rs" "index \<le> rs" for c
    using sw [OF "1.prems"(2), of index c] that "1.prems"(1) by simp
  show ?case
  proof (cases "index \<le> rs div 2")
    case False
    then show ?thesis using "1.prems"(2) by (subst MaxHeap_pop_loop.simps) simp
  next
    case inner: True
    then have l: "index * 2 \<le> rs" "index \<le> rs" "1 \<le> index * 2"
      using "1.prems"(1) by auto
    show ?thesis
    proof (cases "index * 2 + 1 > rs")
      case only_left: True
      show ?thesis
      proof (cases "h ! index < h ! (index * 2)")
        case True
        have "P (MaxHeap_pop_loop (swap h index (index * 2)) rs (index * 2))"
          using only_left by (intro "1.IH"(1) [OF inner refl refl _ True] step l sw) simp_all
        then show ?thesis
          using inner only_left True by (subst MaxHeap_pop_loop.simps) (simp add: Let_def)
      next
        case False
        then show ?thesis
          using inner only_left "1.prems"(2)
          by (subst MaxHeap_pop_loop.simps) (simp add: Let_def)
      qed
    next
      case both: False
      show ?thesis
      proof (cases "h ! index < h ! (index * 2) \<or> h ! index < h ! (index * 2 + 1)")
        case viol: True
        show ?thesis
        proof (cases "h ! (index * 2) > h ! (index * 2 + 1)")
          case True
          have "P (MaxHeap_pop_loop (swap h index (index * 2)) rs (index * 2))"
            by (intro "1.IH"(2) [OF inner refl refl both viol True] step l sw) simp_all
          then show ?thesis
            using inner both viol True by (subst MaxHeap_pop_loop.simps) (simp add: Let_def)
        next
          case False
          have "P (MaxHeap_pop_loop (swap h index (index * 2 + 1)) rs (index * 2 + 1))"
            using both
            by (intro "1.IH"(3) [OF inner refl refl both viol False] step l sw) simp_all
          then show ?thesis
            using inner both viol False by (subst MaxHeap_pop_loop.simps) (simp add: Let_def)
        qed
      next
        case False
        then show ?thesis
          using inner both "1.prems"(2)
          by (subst MaxHeap_pop_loop.simps) (simp add: Let_def)
      qed
    qed
  qed
qed

text \<open>What a swap inside the slots in use keeps: the length and the stored elements.\<close>

lemma mset_slots_swap:
  assumes "n < length h" "1 \<le> a" "a \<le> n" "1 \<le> b" "b \<le> n"
  shows "mset (take n (drop 1 (swap h a b))) = mset (take n (drop 1 h))"
proof -
  let ?t = "take n (drop 1 h)"
  have len: "length ?t = n" using assms by simp
  have a: "?t ! (a - 1) = h ! a" and b: "?t ! (b - 1) = h ! b"
    using assms by simp_all
  have "take n (drop 1 (swap h a b)) = ?t[a - 1 := ?t ! (b - 1), b - 1 := ?t ! (a - 1)]"
    using assms unfolding swap_def a b
    by (simp add: drop_update_swap take_update_swap)
  then show ?thesis
    using mset_swap [of "b - 1" ?t "a - 1"] len assms by simp
qed

lemma keeps_swap:
  "n < length h0 \<Longrightarrow> keeps n h0 h \<Longrightarrow> 1 \<le> a \<Longrightarrow> a \<le> n \<Longrightarrow> 1 \<le> b \<Longrightarrow> b \<le> n \<Longrightarrow>
   keeps n h0 (swap h a b)"
  using mset_slots_swap [of n h a b] by (simp add: keeps_def)

lemma MaxHeap_add_loop_keeps:
  "n < length h \<Longrightarrow> i \<le> n \<Longrightarrow> keeps n h (MaxHeap_add_loop h i)"
  by (rule MaxHeap_add_loop_swaps [where n = n]) (simp_all add: keeps_swap, simp add: keeps_def)

lemma MaxHeap_pop_loop_keeps:
  "n < length h \<Longrightarrow> 1 \<le> i \<Longrightarrow> keeps n h (MaxHeap_pop_loop h n i)"
  by (rule MaxHeap_pop_loop_swaps [where n = n]) (simp_all add: keeps_swap, simp add: keeps_def)

section \<open>MaxHeap: what add and pop do to a well-formed object\<close>

lemma MaxHeap_property_iff: "MaxHeap_property s \<longleftrightarrow> max_ordered (heap s) (realSize s)"
  by (auto simp: MaxHeap_property_def max_ordered_def)

lemma max_ordered_root:
  assumes "max_ordered h n" "1 \<le> k" "k \<le> n"
  shows "h ! k \<le> h ! 1"
  using assms(2,3)
proof (induction k rule: less_induct)
  case (less k)
  show ?case
  proof (cases "k = 1")
    case True
    then show ?thesis by simp
  next
    case False
    then have k2: "2 \<le> k" using less.prems by simp
    then have "h ! k \<le> h ! (k div 2)"
      using assms(1) less.prems by (simp add: max_ordered_def)
    moreover have "h ! (k div 2) \<le> h ! 1"
      using less.IH [of "k div 2"] k2 less.prems by simp
    ultimately show ?thesis by simp
  qed
qed

lemma stored_nth: "n < length h \<Longrightarrow> k < n \<Longrightarrow> take n (drop 1 h) ! k = h ! (k + 1)"
  by simp

lemma max_ordered_root_stored:
  assumes "max_ordered h n" "n < length h" "x \<in> set (take n (drop 1 h))"
  shows "x \<le> h ! 1"
proof -
  from assms(3) obtain k where k: "k < length (take n (drop 1 h))" "take n (drop 1 h) ! k = x"
    by (auto simp: in_set_conv_nth)
  then have "k < n" using assms(2) by simp
  then have "x = h ! (k + 1)" using k assms(2) by simp
  then show ?thesis using max_ordered_root [OF assms(1), of "k + 1"] \<open>k < n\<close> by simp
qed

text \<open>A successful add.\<close>

lemma up_except_new_slot:
  assumes "max_ordered h n" "Suc n < length h"
  shows "up_except (h[Suc n := e]) (Suc n) (Suc n)"
  unfolding up_except_def
proof (intro conjI allI impI)
  fix k assume k: "2 \<le> k \<and> k \<le> Suc n \<and> k \<noteq> Suc n"
  then have "k \<noteq> Suc n" "k div 2 \<noteq> Suc n" by auto
  then show "h[Suc n := e] ! k \<le> h[Suc n := e] ! (k div 2)"
    using assms(1) k by (simp add: max_ordered_def)
next
  fix k assume "2 \<le> k \<and> k \<le> Suc n \<and> k div 2 = Suc n \<and> 2 \<le> Suc n"
  then have False by auto
  then show "h[Suc n := e] ! k \<le> h[Suc n := e] ! (Suc n div 2)" ..
qed

lemma mset_slots_new:
  assumes "Suc n < length h"
  shows "mset (take (Suc n) (drop 1 (h[Suc n := e]))) = add_mset e (mset (take n (drop 1 h)))"
proof -
  have "take (Suc n) (drop 1 (h[Suc n := e])) = take (Suc n) ((drop 1 h)[n := e])"
    by (simp add: drop_update_swap)
  also have "\<dots> = take n (drop 1 h) @ [e]"
    using assms by (simp add: take_Suc_conv_app_nth)
  finally show ?thesis by simp
qed

lemma MaxHeap_add_full:
  "realSize s \<ge> heapSize s \<Longrightarrow> MaxHeap_add s e = ([''Added too many Elements!''], s)"
  by (simp add: MaxHeap_add_def)

lemma MaxHeap_add_room:
  assumes "well_formed s" "realSize s < heapSize s"
  shows "fst (MaxHeap_add s e) = []"
    and "heapSize (snd (MaxHeap_add s e)) = heapSize s"
    and "realSize (snd (MaxHeap_add s e)) = realSize s + 1"
    and "well_formed (snd (MaxHeap_add s e))"
    and "mset (stored (snd (MaxHeap_add s e))) = add_mset e (mset (stored s))"
    and "MaxHeap_property s \<Longrightarrow> MaxHeap_property (snd (MaxHeap_add s e))"
proof -
  let ?n = "realSize s"
  let ?h1 = "(heap s)[Suc ?n := e]"
  have len: "Suc ?n < length (heap s)" "Suc ?n < length ?h1"
    using assms by (simp_all add: well_formed_def)
  have eq: "MaxHeap_add s e = ([], s\<lparr>heap := MaxHeap_add_loop ?h1 (Suc ?n), realSize := Suc ?n\<rparr>)"
    using assms(2) by (simp add: MaxHeap_add_def)
  have k: "keeps (Suc ?n) ?h1 (MaxHeap_add_loop ?h1 (Suc ?n))"
    using len by (intro MaxHeap_add_loop_keeps) simp_all
  show "fst (MaxHeap_add s e) = []" "heapSize (snd (MaxHeap_add s e)) = heapSize s"
    "realSize (snd (MaxHeap_add s e)) = realSize s + 1"
    by (simp_all add: eq)
  show "well_formed (snd (MaxHeap_add s e))"
    using assms k by (simp add: eq well_formed_def keeps_def)
  show "mset (stored (snd (MaxHeap_add s e))) = add_mset e (mset (stored s))"
    using k mset_slots_new [OF len(1), of e] by (simp add: eq stored_def keeps_def)
  show "MaxHeap_property (snd (MaxHeap_add s e))" if "MaxHeap_property s"
  proof -
    have "up_except ?h1 (Suc ?n) (Suc ?n)"
      using that len by (intro up_except_new_slot) (simp_all add: MaxHeap_property_iff)
    then have "max_ordered (MaxHeap_add_loop ?h1 (Suc ?n)) (Suc ?n)"
      using len by (intro MaxHeap_add_loop_ordered) simp_all
    then show ?thesis by (simp add: eq MaxHeap_property_iff)
  qed
qed

text \<open>A successful pop.\<close>

lemma down_except_root:
  assumes "max_ordered h (Suc n)" "Suc n < length h"
  shows "down_except (h[1 := x]) n 1"
  unfolding down_except_def
proof (intro conjI allI impI)
  fix k assume k: "2 \<le> k \<and> k \<le> n \<and> k div 2 \<noteq> 1"
  then have "k \<noteq> 1" "k div 2 \<noteq> 1" by auto
  then show "h[1 := x] ! k \<le> h[1 := x] ! (k div 2)"
    using assms(1) k by (simp add: max_ordered_def)
next
  fix k :: nat assume "2 \<le> k \<and> k \<le> n \<and> k div 2 = 1 \<and> (2::nat) \<le> 1"
  then have False by auto
  then show "h[1 := x] ! k \<le> h[1 := x] ! (1 div 2)" ..
qed

lemma mset_slots_remove_root:
  assumes "Suc n < length h"
  shows "mset (take n (drop 1 (h[1 := h ! Suc n]))) =
         mset (take (Suc n) (drop 1 h)) - {#h ! 1#}"
proof -
  let ?t = "drop 1 h"
  have t: "n < length ?t" "?t ! n = h ! Suc n" "?t ! 0 = h ! 1" using assms by simp_all
  have big: "mset (take (Suc n) ?t) = add_mset (?t ! n) (mset (take n ?t))"
    using t(1) by (simp add: take_Suc_conv_app_nth)
  have upd: "take n (drop 1 (h[1 := h ! Suc n])) = (take n ?t)[0 := ?t ! n]"
    using t by (simp add: drop_update_swap take_update_swap)
  show ?thesis
  proof (cases n)
    case 0
    then show ?thesis using big t by simp
  next
    case (Suc m)
    then have "0 < length (take n ?t)" "take n ?t ! 0 = ?t ! 0" using t(1) by simp_all
    then have "mset ((take n ?t)[0 := ?t ! n]) = add_mset (?t ! n) (mset (take n ?t) - {#?t ! 0#})"
      and "?t ! 0 \<in># mset (take n ?t)"
      using mset_update [of 0 "take n ?t" "?t ! n"] nth_mem [of 0 "take n ?t"] by simp_all
    then show ?thesis using big upd t by simp
  qed
qed

lemma MaxHeap_pop_empty:
  "realSize s = 0 \<Longrightarrow> MaxHeap_pop s = (INT_MIN, [''Don't have any element''], s)"
  by (simp add: MaxHeap_pop_def)

lemma MaxHeap_pop_nonempty:
  assumes "well_formed s" "0 < realSize s"
  shows "fst (MaxHeap_pop s) = heap s ! 1"
    and "fst (snd (MaxHeap_pop s)) = []"
    and "heapSize (snd (snd (MaxHeap_pop s))) = heapSize s"
    and "realSize (snd (snd (MaxHeap_pop s))) = realSize s - 1"
    and "well_formed (snd (snd (MaxHeap_pop s)))"
    and "mset (stored (snd (snd (MaxHeap_pop s)))) = mset (stored s) - {#heap s ! 1#}"
    and "MaxHeap_property s \<Longrightarrow> MaxHeap_property (snd (snd (MaxHeap_pop s)))"
proof -
  obtain n where n: "realSize s = Suc n" using assms(2) by (cases "realSize s") auto
  let ?h1 = "(heap s)[1 := heap s ! Suc n]"
  have len: "Suc n < length (heap s)" "n < length ?h1"
    using assms n by (simp_all add: well_formed_def)
  have eq: "MaxHeap_pop s = (heap s ! 1, [], s\<lparr>heap := MaxHeap_pop_loop ?h1 n 1, realSize := n\<rparr>)"
    using n by (simp add: MaxHeap_pop_def Let_def)
  have k: "keeps n ?h1 (MaxHeap_pop_loop ?h1 n 1)"
    using len by (intro MaxHeap_pop_loop_keeps) simp_all
  show "fst (MaxHeap_pop s) = heap s ! 1" "fst (snd (MaxHeap_pop s)) = []"
    "heapSize (snd (snd (MaxHeap_pop s))) = heapSize s"
    "realSize (snd (snd (MaxHeap_pop s))) = realSize s - 1"
    by (simp_all add: eq n)
  show "well_formed (snd (snd (MaxHeap_pop s)))"
    using assms k n by (simp add: eq well_formed_def keeps_def)
  show "mset (stored (snd (snd (MaxHeap_pop s)))) = mset (stored s) - {#heap s ! 1#}"
    using k mset_slots_remove_root [OF len(1)] by (simp add: eq stored_def keeps_def n)
  show "MaxHeap_property (snd (snd (MaxHeap_pop s)))" if "MaxHeap_property s"
  proof -
    have "down_except ?h1 n 1"
      using that len n by (intro down_except_root) (simp_all add: MaxHeap_property_iff)
    then have "max_ordered (MaxHeap_pop_loop ?h1 n 1) n"
      using len by (intro MaxHeap_pop_loop_ordered) simp_all
    then show ?thesis by (simp add: eq MaxHeap_property_iff)
  qed
qed

section \<open>MinHeap: the MaxHeap code on negated elements\<close>

declare MinHeap_add_loop.simps [simp del]
declare MinHeap_pop_loop.simps [simp del]

lemma swap_map_uminus:
  "i < length h \<Longrightarrow> j < length h \<Longrightarrow> swap (map uminus h) i j = map uminus (swap h i j)"
  by (simp add: swap_def map_update)

lemma MinHeap_add_loop_negated:
  "i < length h \<Longrightarrow> MinHeap_add_loop h i = map uminus (MaxHeap_add_loop (map uminus h) i)"
proof (induction h i rule: MinHeap_add_loop.induct)
  case (1 h index)
  have p: "index div 2 < length h" using "1.prems" by simp
  show ?case
  proof (cases "1 < index \<and> h ! index < h ! (index div 2)")
    case True
    then have "MinHeap_add_loop h index =
               MinHeap_add_loop (swap h index (index div 2)) (index div 2)"
      by (subst MinHeap_add_loop.simps) (simp add: Let_def)
    also have "\<dots> = map uminus (MaxHeap_add_loop (map uminus (swap h index (index div 2))) (index div 2))"
      using "1.IH" [of "index div 2"] True p by simp
    also have "\<dots> = map uminus (MaxHeap_add_loop (map uminus h) index)"
      using True p "1.prems" by (simp add: MaxHeap_add_loop_step swap_map_uminus)
    finally show ?thesis .
  next
    case False
    then have "MinHeap_add_loop h index = h"
      by (subst MinHeap_add_loop.simps) (auto simp add: Let_def)
    moreover have "MaxHeap_add_loop (map uminus h) index = map uminus h"
      using False p "1.prems" by (intro MaxHeap_add_loop_stop) auto
    ultimately show ?thesis by (simp add: comp_def)
  qed
qed

lemma MinHeap_pop_loop_negated:
  "n < length h \<Longrightarrow> MinHeap_pop_loop h n i = map uminus (MaxHeap_pop_loop (map uminus h) n i)"
proof (induction h n i rule: MinHeap_pop_loop.induct)
  case (1 h rs index)
  note len = "1.prems"
  show ?case
  proof (cases "index \<le> rs div 2")
    case False
    then show ?thesis
      by (subst MinHeap_pop_loop.simps, subst MaxHeap_pop_loop.simps) (simp add: comp_def)
  next
    case inner: True
    then have l: "index * 2 < length h" "index < length h" using len by auto
    show ?thesis
    proof (cases "index * 2 + 1 > rs")
      case only_left: True
      show ?thesis
      proof (cases "h ! index > h ! (index * 2)")
        case True
        have "MinHeap_pop_loop (swap h index (index * 2)) rs (index * 2) =
              map uminus (MaxHeap_pop_loop (map uminus (swap h index (index * 2))) rs (index * 2))"
          using only_left len by (intro "1.IH"(1) [OF inner refl refl _ True]) simp_all
        then show ?thesis
          using inner only_left True l
          by (subst MinHeap_pop_loop.simps, subst MaxHeap_pop_loop.simps)
             (simp add: Let_def swap_map_uminus)
      next
        case False
        then show ?thesis
          using inner only_left l
          by (subst MinHeap_pop_loop.simps, subst MaxHeap_pop_loop.simps)
             (simp add: Let_def comp_def)
      qed
    next
      case both: False
      then have r: "index * 2 + 1 < length h" using len by simp
      show ?thesis
      proof (cases "h ! index > h ! (index * 2) \<or> h ! index > h ! (index * 2 + 1)")
        case viol: True
        show ?thesis
        proof (cases "h ! (index * 2) < h ! (index * 2 + 1)")
          case True
          have "MinHeap_pop_loop (swap h index (index * 2)) rs (index * 2) =
                map uminus (MaxHeap_pop_loop (map uminus (swap h index (index * 2))) rs (index * 2))"
            using len by (intro "1.IH"(2) [OF inner refl refl both viol True]) simp_all
          then show ?thesis
            using inner both viol True l r
            by (subst MinHeap_pop_loop.simps, subst MaxHeap_pop_loop.simps)
               (auto simp add: Let_def swap_map_uminus)
        next
          case False
          have "MinHeap_pop_loop (swap h index (index * 2 + 1)) rs (index * 2 + 1) =
                map uminus (MaxHeap_pop_loop (map uminus (swap h index (index * 2 + 1))) rs
                  (index * 2 + 1))"
            using len by (intro "1.IH"(3) [OF inner refl refl both viol False]) simp_all
          then show ?thesis
            using inner both viol False l r
            by (subst MinHeap_pop_loop.simps, subst MaxHeap_pop_loop.simps)
               (auto simp add: Let_def swap_map_uminus)
        qed
      next
        case False
        then show ?thesis
          using inner both l r
          by (subst MinHeap_pop_loop.simps, subst MaxHeap_pop_loop.simps)
             (auto simp add: Let_def comp_def)
      qed
    qed
  qed
qed

lemma negated_simps [simp]:
  "heap (negated s) = map uminus (heap s)" "heapSize (negated s) = heapSize s"
  "realSize (negated s) = realSize s"
  by (simp_all add: negated_def)

lemma negated_negated [simp]: "negated (negated s) = s"
  by (simp add: negated_def comp_def)

lemma well_formed_negated [simp]: "well_formed (negated s) = well_formed s"
  by (simp add: well_formed_def)

lemma stored_negated: "stored (negated s) = map uminus (stored s)"
  by (simp add: stored_def take_map drop_map)

lemma MinHeap_property_negated:
  assumes "well_formed s"
  shows "MinHeap_property s \<longleftrightarrow> MaxHeap_property (negated s)"
proof -
  have neg: "map uminus (heap s) ! i = - heap s ! i" if "i \<le> realSize s" for i
    using that assms by (simp add: well_formed_def)
  have "(heap s ! (i div 2) \<le> heap s ! i) =
        (map uminus (heap s) ! i \<le> map uminus (heap s) ! (i div 2))"
    if "i \<in> {2..realSize s}" for i
  proof -
    have "i \<le> realSize s" "i div 2 \<le> realSize s" using that by auto
    then show ?thesis using neg [of i] neg [of "i div 2"] by simp
  qed
  then show ?thesis
    unfolding MinHeap_property_def MaxHeap_property_def by simp
qed

lemma MinHeap_add_negated:
  assumes "well_formed s"
  shows "MinHeap_add s e = (fst (MaxHeap_add (negated s) (- e)), negated (snd (MaxHeap_add (negated s) (- e))))"
proof (cases "realSize s < heapSize s")
  case True
  then have "Suc (realSize s) < length (heap s)" using assms by (simp add: well_formed_def)
  then show ?thesis
    using True
    by (simp add: MinHeap_add_def MaxHeap_add_def MinHeap_add_loop_negated negated_def
        map_update comp_def)
next
  case False
  then show ?thesis by (simp add: MinHeap_add_def MaxHeap_add_def negated_def comp_def)
qed

lemma MinHeap_pop_negated:
  assumes "well_formed s" "0 < realSize s"
  shows "MinHeap_pop s = (- fst (MaxHeap_pop (negated s)), fst (snd (MaxHeap_pop (negated s))),
            negated (snd (snd (MaxHeap_pop (negated s)))))"
proof -
  have "realSize s < length (heap s)" "1 < length (heap s)" "realSize s - 1 < length (heap s)"
    using assms by (auto simp add: well_formed_def)
  then show ?thesis
    using assms(2)
    by (simp add: MinHeap_pop_def MaxHeap_pop_def MinHeap_pop_loop_negated negated_def
        map_update comp_def Let_def)
qed

section \<open>MinHeap: what add and pop do to a well-formed object\<close>

lemma MinHeap_add_full:
  "realSize s \<ge> heapSize s \<Longrightarrow> MinHeap_add s e = ([''Added too many Elements!''], s)"
  by (simp add: MinHeap_add_def)

lemma MinHeap_add_room:
  assumes "well_formed s" "realSize s < heapSize s"
  shows "fst (MinHeap_add s e) = []"
    and "heapSize (snd (MinHeap_add s e)) = heapSize s"
    and "realSize (snd (MinHeap_add s e)) = realSize s + 1"
    and "well_formed (snd (MinHeap_add s e))"
    and "mset (stored (snd (MinHeap_add s e))) = add_mset e (mset (stored s))"
    and "MinHeap_property s \<Longrightarrow> MinHeap_property (snd (MinHeap_add s e))"
proof -
  let ?t = "snd (MaxHeap_add (negated s) (- e))"
  have eq: "MinHeap_add s e = (fst (MaxHeap_add (negated s) (- e)), negated ?t)"
    using assms(1) by (rule MinHeap_add_negated)
  have w: "well_formed (negated s)" "realSize (negated s) < heapSize (negated s)"
    using assms by simp_all
  note max = MaxHeap_add_room [OF w, of "- e"]
  show "fst (MinHeap_add s e) = []" "heapSize (snd (MinHeap_add s e)) = heapSize s"
    "realSize (snd (MinHeap_add s e)) = realSize s + 1"
    "well_formed (snd (MinHeap_add s e))"
    using max(1-4) by (simp_all add: eq)
  have "mset (stored (negated ?t)) = image_mset uminus (add_mset (- e) (image_mset uminus (mset (stored s))))"
    using max(5) by (simp add: stored_negated)
  then show "mset (stored (snd (MinHeap_add s e))) = add_mset e (mset (stored s))"
    by (simp add: eq multiset.map_comp comp_def)
  show "MinHeap_property (snd (MinHeap_add s e))" if "MinHeap_property s"
    using that max(4,6) assms(1) by (simp add: eq MinHeap_property_negated)
qed

lemma MinHeap_pop_empty:
  "realSize s = 0 \<Longrightarrow> MinHeap_pop s = (INT_MAX, [''Don't have any element''], s)"
  by (simp add: MinHeap_pop_def)

lemma MinHeap_pop_nonempty:
  assumes "well_formed s" "0 < realSize s"
  shows "fst (MinHeap_pop s) = heap s ! 1"
    and "fst (snd (MinHeap_pop s)) = []"
    and "heapSize (snd (snd (MinHeap_pop s))) = heapSize s"
    and "realSize (snd (snd (MinHeap_pop s))) = realSize s - 1"
    and "well_formed (snd (snd (MinHeap_pop s)))"
    and "mset (stored (snd (snd (MinHeap_pop s)))) = mset (stored s) - {#heap s ! 1#}"
    and "MinHeap_property s \<Longrightarrow> MinHeap_property (snd (snd (MinHeap_pop s)))"
proof -
  let ?t = "snd (snd (MaxHeap_pop (negated s)))"
  have eq: "MinHeap_pop s = (- fst (MaxHeap_pop (negated s)), fst (snd (MaxHeap_pop (negated s))),
      negated ?t)"
    using assms by (rule MinHeap_pop_negated)
  have w: "well_formed (negated s)" "0 < realSize (negated s)"
    using assms by simp_all
  note max = MaxHeap_pop_nonempty [OF w]
  have root: "heap (negated s) ! 1 = - heap s ! 1"
    using assms by (simp add: well_formed_def)
  show "fst (MinHeap_pop s) = heap s ! 1" "fst (snd (MinHeap_pop s)) = []"
    "heapSize (snd (snd (MinHeap_pop s))) = heapSize s"
    "realSize (snd (snd (MinHeap_pop s))) = realSize s - 1"
    "well_formed (snd (snd (MinHeap_pop s)))"
    using max(1-5) root by (simp_all add: eq)
  have inj: "inj (uminus :: int \<Rightarrow> int)" by (simp add: inj_def)
  have "mset (stored (negated ?t)) =
        image_mset uminus (image_mset uminus (mset (stored s)) - {#- heap s ! 1#})"
    using max(6) root by (simp add: stored_negated)
  also have "\<dots> = mset (stored s) - {#heap s ! 1#}"
    by (simp add: image_mset_diff_if_inj [OF inj] multiset.map_comp comp_def)
  finally show "mset (stored (snd (snd (MinHeap_pop s)))) = mset (stored s) - {#heap s ! 1#}"
    by (simp add: eq)
  show "MinHeap_property (snd (snd (MinHeap_pop s)))" if "MinHeap_property s"
    using that max(5,7) assms(1) by (simp add: eq MinHeap_property_negated)
qed

lemma MaxHeap_root_greatest:
  assumes "well_formed s" "MaxHeap_property s" "x \<in> set (stored s)"
  shows "x \<le> heap s ! 1"
  using assms max_ordered_root_stored [of "heap s" "realSize s" x]
  by (simp add: MaxHeap_property_iff stored_def well_formed_def)

lemma MinHeap_root_least:
  assumes "well_formed s" "MinHeap_property s" "x \<in> set (stored s)"
  shows "heap s ! 1 \<le> x"
proof -
  have "0 < realSize s" using assms(3) by (cases "realSize s") (auto simp: stored_def)
  then have "heap (negated s) ! 1 = - heap s ! 1"
    using assms(1) by (simp add: well_formed_def)
  moreover have "- x \<le> heap (negated s) ! 1"
    using assms by (intro MaxHeap_root_greatest) (simp_all add: MinHeap_property_negated stored_negated)
  ultimately show ?thesis by simp
qed

lemma root_stored:
  assumes "well_formed s" "0 < realSize s"
  shows "heap s ! 1 \<in> set (stored s)"
proof -
  have "stored s ! 0 = heap s ! 1" "0 < length (stored s)"
    using assms by (simp_all add: stored_def well_formed_def)
  then show ?thesis by (metis nth_mem)
qed

section \<open>Invariants of call sequences\<close>

lemma MaxHeap_init_Some:
  assumes "MaxHeap_init capacity = Some s"
  shows "well_formed s" "realSize s = 0" "heapSize s = nat capacity" "MaxHeap_property s"
    "0 \<le> capacity"
  using assms
  by (auto simp: MaxHeap_init_def well_formed_def MaxHeap_property_def split: if_splits)

lemma MinHeap_init_Some:
  assumes "MinHeap_init capacity = Some s"
  shows "well_formed s" "realSize s = 0" "heapSize s = nat capacity" "MinHeap_property s"
    "0 \<le> capacity"
  using assms
  by (auto simp: MinHeap_init_def well_formed_def MinHeap_property_def split: if_splits)

lemma MaxHeap_call_invariant:
  assumes "well_formed s" "MaxHeap_property s"
  shows "well_formed (snd (MaxHeap_call s c)) \<and> MaxHeap_property (snd (MaxHeap_call s c)) \<and>
         heapSize (snd (MaxHeap_call s c)) = heapSize s"
proof (cases c)
  case (Add e)
  show ?thesis
  proof (cases "realSize s < heapSize s")
    case True
    then show ?thesis
      using MaxHeap_add_room [OF assms(1) True, of e] assms(2) Add
      by (simp add: split_beta)
  next
    case False
    then show ?thesis using assms Add by (simp add: MaxHeap_add_full)
  qed
next
  case Pop
  show ?thesis
  proof (cases "0 < realSize s")
    case True
    then show ?thesis
      using MaxHeap_pop_nonempty [OF assms(1) True] assms(2) Pop
      by (simp add: split_beta)
  next
    case False
    then show ?thesis using assms Pop by (simp add: MaxHeap_pop_empty)
  qed
qed (use assms in \<open>simp_all add: split_beta\<close>)

lemma MinHeap_call_invariant:
  assumes "well_formed s" "MinHeap_property s"
  shows "well_formed (snd (MinHeap_call s c)) \<and> MinHeap_property (snd (MinHeap_call s c)) \<and>
         heapSize (snd (MinHeap_call s c)) = heapSize s"
proof (cases c)
  case (Add e)
  show ?thesis
  proof (cases "realSize s < heapSize s")
    case True
    then show ?thesis
      using MinHeap_add_room [OF assms(1) True, of e] assms(2) Add
      by (simp add: split_beta)
  next
    case False
    then show ?thesis using assms Add by (simp add: MinHeap_add_full)
  qed
next
  case Pop
  show ?thesis
  proof (cases "0 < realSize s")
    case True
    then show ?thesis
      using MinHeap_pop_nonempty [OF assms(1) True] assms(2) Pop
      by (simp add: split_beta)
  next
    case False
    then show ?thesis using assms Pop by (simp add: MinHeap_pop_empty)
  qed
qed (use assms in \<open>simp_all add: split_beta\<close>)

lemma MaxHeap_run_invariant:
  "well_formed s \<Longrightarrow> MaxHeap_property s \<Longrightarrow>
   well_formed (snd (MaxHeap_run s cs)) \<and> MaxHeap_property (snd (MaxHeap_run s cs)) \<and>
   heapSize (snd (MaxHeap_run s cs)) = heapSize s"
proof (induction cs arbitrary: s)
  case Nil
  then show ?case by simp
next
  case (Cons c cs)
  from MaxHeap_call_invariant [OF Cons.prems, of c]
  have "well_formed (snd (MaxHeap_call s c))" "MaxHeap_property (snd (MaxHeap_call s c))"
    "heapSize (snd (MaxHeap_call s c)) = heapSize s" by simp_all
  with Cons.IH [of "snd (MaxHeap_call s c)"] show ?case
    by (simp add: split_beta)
qed

lemma MinHeap_run_invariant:
  "well_formed s \<Longrightarrow> MinHeap_property s \<Longrightarrow>
   well_formed (snd (MinHeap_run s cs)) \<and> MinHeap_property (snd (MinHeap_run s cs)) \<and>
   heapSize (snd (MinHeap_run s cs)) = heapSize s"
proof (induction cs arbitrary: s)
  case Nil
  then show ?case by simp
next
  case (Cons c cs)
  from MinHeap_call_invariant [OF Cons.prems, of c]
  have "well_formed (snd (MinHeap_call s c))" "MinHeap_property (snd (MinHeap_call s c))"
    "heapSize (snd (MinHeap_call s c)) = heapSize s" by simp_all
  with Cons.IH [of "snd (MinHeap_call s c)"] show ?case
    by (simp add: split_beta)
qed


section \<open>Filling a heap, then emptying it\<close>

lemma MaxHeap_run_append:
  "MaxHeap_run s (cs @ ds) =
     (fst (MaxHeap_run s cs) @ fst (MaxHeap_run (snd (MaxHeap_run s cs)) ds),
      snd (MaxHeap_run (snd (MaxHeap_run s cs)) ds))"
  by (induction cs arbitrary: s) (simp_all add: split_beta)

lemma MinHeap_run_append:
  "MinHeap_run s (cs @ ds) =
     (fst (MinHeap_run s cs) @ fst (MinHeap_run (snd (MinHeap_run s cs)) ds),
      snd (MinHeap_run (snd (MinHeap_run s cs)) ds))"
  by (induction cs arbitrary: s) (simp_all add: split_beta)

lemma MaxHeap_run_adds:
  "well_formed s \<Longrightarrow> MaxHeap_property s \<Longrightarrow> realSize s + length xs \<le> heapSize s \<Longrightarrow>
   fst (MaxHeap_run s (map Add xs)) = replicate (length xs) (Void, []) \<and>
   well_formed (snd (MaxHeap_run s (map Add xs))) \<and>
   MaxHeap_property (snd (MaxHeap_run s (map Add xs))) \<and>
   realSize (snd (MaxHeap_run s (map Add xs))) = realSize s + length xs \<and>
   mset (stored (snd (MaxHeap_run s (map Add xs)))) = mset (stored s) + mset xs"
proof (induction xs arbitrary: s)
  case Nil
  then show ?case by simp
next
  case (Cons x xs)
  let ?s1 = "snd (MaxHeap_add s x)"
  have room: "realSize s < heapSize s" using Cons.prems(3) by simp
  note add = MaxHeap_add_room [OF Cons.prems(1) room, of x]
  have "realSize ?s1 + length xs \<le> heapSize ?s1" using add(2,3) Cons.prems(3) by simp
  from Cons.IH [OF add(4) add(6) [OF Cons.prems(2)] this] add(1,3,5)
  show ?case by (simp add: split_beta)
qed

lemma MinHeap_run_adds:
  "well_formed s \<Longrightarrow> MinHeap_property s \<Longrightarrow> realSize s + length xs \<le> heapSize s \<Longrightarrow>
   fst (MinHeap_run s (map Add xs)) = replicate (length xs) (Void, []) \<and>
   well_formed (snd (MinHeap_run s (map Add xs))) \<and>
   MinHeap_property (snd (MinHeap_run s (map Add xs))) \<and>
   realSize (snd (MinHeap_run s (map Add xs))) = realSize s + length xs \<and>
   mset (stored (snd (MinHeap_run s (map Add xs)))) = mset (stored s) + mset xs"
proof (induction xs arbitrary: s)
  case Nil
  then show ?case by simp
next
  case (Cons x xs)
  let ?s1 = "snd (MinHeap_add s x)"
  have room: "realSize s < heapSize s" using Cons.prems(3) by simp
  note add = MinHeap_add_room [OF Cons.prems(1) room, of x]
  have "realSize ?s1 + length xs \<le> heapSize ?s1" using add(2,3) Cons.prems(3) by simp
  from Cons.IH [OF add(4) add(6) [OF Cons.prems(2)] this] add(1,3,5)
  show ?case by (simp add: split_beta)
qed

lemma sort_remove_greatest:
  fixes m :: int
  assumes "m \<in># M" "\<forall>x \<in># M. x \<le> m" "mset ys = M" "mset zs = M - {#m#}"
  shows "sort ys = sort zs @ [m]"
proof (rule properties_for_sort)
  show "mset (sort zs @ [m]) = mset ys" using assms by simp
  have "\<forall>x \<in> set zs. x \<le> m"
    using assms(2,4) by (metis in_diffD set_mset_mset)
  then show "sorted (sort zs @ [m])" by (simp add: sorted_append)
qed

lemma sort_remove_least:
  fixes m :: int
  assumes "m \<in># M" "\<forall>x \<in># M. m \<le> x" "mset ys = M" "mset zs = M - {#m#}"
  shows "sort ys = m # sort zs"
proof (rule properties_for_sort)
  show "mset (m # sort zs) = mset ys" using assms by simp
  have "\<forall>x \<in> set zs. m \<le> x"
    using assms(2,4) by (metis in_diffD set_mset_mset)
  then show "sorted (m # sort zs)" by simp
qed

lemma MaxHeap_run_pops:
  "well_formed s \<Longrightarrow> MaxHeap_property s \<Longrightarrow> realSize s = n \<Longrightarrow>
   fst (MaxHeap_run s (replicate n Pop)) = map (\<lambda>v. (IntVal v, [])) (rev (sort (stored s)))"
proof (induction n arbitrary: s)
  case 0
  then show ?case by (simp add: stored_def)
next
  case (Suc n)
  let ?m = "heap s ! 1" and ?s1 = "snd (snd (MaxHeap_pop s))"
  have pos: "0 < realSize s" using Suc.prems(3) by simp
  note pop = MaxHeap_pop_nonempty [OF Suc.prems(1) pos]
  have "sort (stored s) = sort (stored ?s1) @ [?m]"
  proof (rule sort_remove_greatest [where M = "mset (stored s)"])
    show "?m \<in># mset (stored s)" using root_stored [OF Suc.prems(1) pos] by simp
    show "\<forall>x \<in># mset (stored s). x \<le> ?m"
      using MaxHeap_root_greatest [OF Suc.prems(1,2)] by simp
  qed (simp_all add: pop(6))
  moreover have "fst (MaxHeap_run ?s1 (replicate n Pop)) =
      map (\<lambda>v. (IntVal v, [])) (rev (sort (stored ?s1)))"
    using Suc.prems(3) pop(4) by (intro Suc.IH pop(5) pop(7) Suc.prems(2)) simp
  ultimately show ?case using pop(1,2) by (simp add: split_beta)
qed

lemma MinHeap_run_pops:
  "well_formed s \<Longrightarrow> MinHeap_property s \<Longrightarrow> realSize s = n \<Longrightarrow>
   fst (MinHeap_run s (replicate n Pop)) = map (\<lambda>v. (IntVal v, [])) (sort (stored s))"
proof (induction n arbitrary: s)
  case 0
  then show ?case by (simp add: stored_def)
next
  case (Suc n)
  let ?m = "heap s ! 1" and ?s1 = "snd (snd (MinHeap_pop s))"
  have pos: "0 < realSize s" using Suc.prems(3) by simp
  note pop = MinHeap_pop_nonempty [OF Suc.prems(1) pos]
  have "sort (stored s) = ?m # sort (stored ?s1)"
  proof (rule sort_remove_least [where M = "mset (stored s)"])
    show "?m \<in># mset (stored s)" using root_stored [OF Suc.prems(1) pos] by simp
    show "\<forall>x \<in># mset (stored s). ?m \<le> x"
      using MinHeap_root_least [OF Suc.prems(1,2)] by simp
  qed (simp_all add: pop(6))
  moreover have "fst (MinHeap_run ?s1 (replicate n Pop)) =
      map (\<lambda>v. (IntVal v, [])) (sort (stored ?s1))"
    using Suc.prems(3) pop(4) by (intro Suc.IH pop(5) pop(7) Suc.prems(2)) simp
  ultimately show ?case using pop(1,2) by (simp add: split_beta)
qed

lemma stored_init:
  "MaxHeap_init capacity = Some s \<Longrightarrow> stored s = []"
  "MinHeap_init capacity = Some s \<Longrightarrow> stored s = []"
  by (auto simp: MaxHeap_init_def MinHeap_init_def stored_def split: if_splits)


section \<open>Counting the stored elements\<close>

lemma MaxHeap_call_size:
  "int (realSize (snd (MaxHeap_call s c))) =
     int (realSize s) + int (successful_adds [c] [fst (MaxHeap_call s c)])
       - int (successful_pops [c] [fst (MaxHeap_call s c)])"
proof (cases c)
  case (Add e)
  then show ?thesis by (simp add: MaxHeap_add_def)
next
  case Pop
  then show ?thesis by (simp add: MaxHeap_pop_def Let_def)
qed (simp_all add: MaxHeap_peek_def split_beta)

lemma MinHeap_call_size:
  "int (realSize (snd (MinHeap_call s c))) =
     int (realSize s) + int (successful_adds [c] [fst (MinHeap_call s c)])
       - int (successful_pops [c] [fst (MinHeap_call s c)])"
proof (cases c)
  case (Add e)
  then show ?thesis by (simp add: MinHeap_add_def)
next
  case Pop
  then show ?thesis by (simp add: MinHeap_pop_def Let_def)
qed (simp_all add: MinHeap_peek_def split_beta)

lemma successful_adds_Cons:
  "successful_adds (c # cs) (r # rs) = successful_adds [c] [r] + successful_adds cs rs"
  by (cases c; cases r) simp_all

lemma successful_pops_Cons:
  "successful_pops (c # cs) (r # rs) = successful_pops [c] [r] + successful_pops cs rs"
  by (cases c; cases r) simp_all

lemma MaxHeap_run_size:
  "int (realSize (snd (MaxHeap_run s cs))) =
     int (realSize s) + int (successful_adds cs (fst (MaxHeap_run s cs)))
       - int (successful_pops cs (fst (MaxHeap_run s cs)))"
proof (induction cs arbitrary: s)
  case Nil
  then show ?case by simp
next
  case (Cons c cs)
  let ?s1 = "snd (MaxHeap_call s c)"
  have run: "MaxHeap_run s (c # cs) =
      (fst (MaxHeap_call s c) # fst (MaxHeap_run ?s1 cs), snd (MaxHeap_run ?s1 cs))"
    by (simp add: split_beta)
  show ?case
    unfolding run fst_conv snd_conv
    by (subst successful_adds_Cons, subst successful_pops_Cons)
       (simp add: Cons.IH [of ?s1] MaxHeap_call_size [of s c])
qed

lemma MinHeap_run_size:
  "int (realSize (snd (MinHeap_run s cs))) =
     int (realSize s) + int (successful_adds cs (fst (MinHeap_run s cs)))
       - int (successful_pops cs (fst (MinHeap_run s cs)))"
proof (induction cs arbitrary: s)
  case Nil
  then show ?case by simp
next
  case (Cons c cs)
  let ?s1 = "snd (MinHeap_call s c)"
  have run: "MinHeap_run s (c # cs) =
      (fst (MinHeap_call s c) # fst (MinHeap_run ?s1 cs), snd (MinHeap_run ?s1 cs))"
    by (simp add: split_beta)
  show ?case
    unfolding run fst_conv snd_conv
    by (subst successful_adds_Cons, subst successful_pops_Cons)
       (simp add: Cons.IH [of ?s1] MinHeap_call_size [of s c])
qed


section \<open>The first element of a heap\<close>

lemma stored_single:
  assumes "well_formed u" "realSize u = 1"
  shows "stored u = [heap u ! 1]"
proof -
  have "1 < length (heap u)" using assms by (simp add: well_formed_def)
  then have "take 1 (drop 1 (heap u)) = [heap u ! 1]"
    by (simp add: take_Suc_conv_app_nth)
  then show ?thesis using assms(2) by (simp add: stored_def)
qed

lemma MaxHeap_add_first:
  assumes "well_formed t" "realSize t = 0" "0 < heapSize t"
  shows "fst (MaxHeap_add t e) = []" "realSize (snd (MaxHeap_add t e)) = 1"
    "heap (snd (MaxHeap_add t e)) ! 1 = e" "well_formed (snd (MaxHeap_add t e))"
    "stored (snd (MaxHeap_add t e)) = [e]"
proof -
  have room: "realSize t < heapSize t" using assms by simp
  show 1: "fst (MaxHeap_add t e) = []" and 4: "well_formed (snd (MaxHeap_add t e))"
    using MaxHeap_add_room(1,4) [OF assms(1) room, of e] by simp_all
  show 2: "realSize (snd (MaxHeap_add t e)) = 1" and 3: "heap (snd (MaxHeap_add t e)) ! 1 = e"
    using assms by (simp_all add: MaxHeap_add_def well_formed_def MaxHeap_add_loop_stop)
  show "stored (snd (MaxHeap_add t e)) = [e]"
    using stored_single [OF 4 2] 3 by simp
qed

lemma MinHeap_add_first:
  assumes "well_formed t" "realSize t = 0" "0 < heapSize t"
  shows "fst (MinHeap_add t e) = []" "realSize (snd (MinHeap_add t e)) = 1"
    "heap (snd (MinHeap_add t e)) ! 1 = e" "well_formed (snd (MinHeap_add t e))"
    "stored (snd (MinHeap_add t e)) = [e]"
proof -
  have room: "realSize t < heapSize t" using assms by simp
  have stop: "MinHeap_add_loop h (Suc 0) = h" for h
    by (subst MinHeap_add_loop.simps) simp
  show 1: "fst (MinHeap_add t e) = []" and 4: "well_formed (snd (MinHeap_add t e))"
    using MinHeap_add_room(1,4) [OF assms(1) room, of e] by simp_all
  show 2: "realSize (snd (MinHeap_add t e)) = 1" and 3: "heap (snd (MinHeap_add t e)) ! 1 = e"
    using assms by (simp_all add: MinHeap_add_def well_formed_def stop)
  show "stored (snd (MinHeap_add t e)) = [e]"
    using stored_single [OF 4 2] 3 by simp
qed

text \<open>A heap that holds one element returns it from \<^verbatim>\<open>peek\<close> and from \<^verbatim>\<open>pop\<close>, which
  leaves the heap empty; neither writes a message.\<close>

lemma MaxHeap_single:
  assumes "well_formed u" "realSize u = 1"
  shows "MaxHeap_peek u = (heap u ! 1, [])" "fst (MaxHeap_pop u) = heap u ! 1"
    "fst (snd (MaxHeap_pop u)) = []" "realSize (snd (snd (MaxHeap_pop u))) = 0"
proof -
  have pos: "0 < realSize u" using assms(2) by simp
  show "MaxHeap_peek u = (heap u ! 1, [])" using assms(2) by (simp add: MaxHeap_peek_def)
  show "fst (MaxHeap_pop u) = heap u ! 1" "fst (snd (MaxHeap_pop u)) = []"
    "realSize (snd (snd (MaxHeap_pop u))) = 0"
    using MaxHeap_pop_nonempty(1,2,4) [OF assms(1) pos] assms(2) by simp_all
qed

lemma MinHeap_single:
  assumes "well_formed u" "realSize u = 1"
  shows "MinHeap_peek u = (heap u ! 1, [])" "fst (MinHeap_pop u) = heap u ! 1"
    "fst (snd (MinHeap_pop u)) = []" "realSize (snd (snd (MinHeap_pop u))) = 0"
proof -
  have pos: "0 < realSize u" using assms(2) by simp
  show "MinHeap_peek u = (heap u ! 1, [])" using assms(2) by (simp add: MinHeap_peek_def)
  show "fst (MinHeap_pop u) = heap u ! 1" "fst (snd (MinHeap_pop u)) = []"
    "realSize (snd (snd (MinHeap_pop u))) = 0"
    using MinHeap_pop_nonempty(1,2,4) [OF assms(1) pos] assms(2) by simp_all
qed

section \<open>The loop of toString\<close>

declare toString_loop.simps [simp del]

lemma comma_join_Cons:
  "comma_join (x # ys) = (if ys = [] then x else x @ '','' @ comma_join ys)"
  by (cases ys) simp_all

lemma toString_loop_eq:
  "toString_loop h rs i oss = oss @ comma_join (map (\<lambda>k. show_int (h ! k)) [i..<Suc rs])"
proof (induction h rs i oss rule: toString_loop.induct)
  case (1 h rs i oss)
  show ?case
  proof (cases "i \<le> rs")
    case True
    then have upt: "[i..<Suc rs] = i # [Suc i..<Suc rs]" by (simp add: upt_conv_Cons)
    have empty: "[Suc i..<Suc rs] = [] \<longleftrightarrow> \<not> i < rs" by simp
    show ?thesis
      using True "1.IH" [OF True refl refl]
      by (subst toString_loop.simps) (simp add: Let_def upt comma_join_Cons del: upt_Suc)
  next
    case False
    then show ?thesis by (subst toString_loop.simps) simp
  qed
qed

lemma slots_stored:
  assumes "n < length h"
  shows "map (\<lambda>k. h ! k) [1..<Suc n] = take n (drop 1 h)"
proof (rule nth_equalityI)
  show "length (map (\<lambda>k. h ! k) [1..<Suc n]) = length (take n (drop 1 h))"
    using assms by simp
next
  fix i assume "i < length (map (\<lambda>k. h ! k) [1..<Suc n])"
  then have "i < n" by (simp del: upt_Suc)
  then show "map (\<lambda>k. h ! k) [1..<Suc n] ! i = take n (drop 1 h) ! i"
    using assms by (simp add: nth_append del: upt_Suc)
qed

lemma toString_stored:
  assumes "well_formed s"
  shows "toString_loop (heap s) (realSize s) (Suc 0) oss =
         oss @ comma_join (map show_int (stored s))"
proof -
  have "map (\<lambda>k. show_int (heap s ! k)) [1..<Suc (realSize s)] =
        map show_int (map (\<lambda>k. heap s ! k) [1..<Suc (realSize s)])"
    by (simp del: upt_Suc)
  also have "\<dots> = map show_int (stored s)"
    using assms slots_stored [of "realSize s" "heap s"] by (simp add: stored_def well_formed_def)
  finally show ?thesis by (simp add: toString_loop_eq del: upt_Suc)
qed


section \<open>The loops read only the slots in use\<close>

lemma agree_swap:
  assumes "agree n h h'" "n < length h" "n < length h'"
    "1 \<le> a" "a \<le> n" "1 \<le> b" "b \<le> n"
  shows "agree n (swap h a b) (swap h' a b)"
proof -
  have len: "a < length h" "b < length h" "a < length h'" "b < length h'"
    using assms by simp_all
  have "swap h a b ! i = swap h' a b ! i" if "1 \<le> i" "i \<le> n" for i
    using assms that by (simp add: swap_nth len agree_def)
  then show ?thesis using assms(1) by (simp add: agree_def)
qed

lemma agree_nth: "agree n h h' \<Longrightarrow> 1 \<le> i \<Longrightarrow> i \<le> n \<Longrightarrow> h ! i = h' ! i"
  by (simp add: agree_def)

lemma MaxHeap_add_loop_agree:
  "agree n h h' \<Longrightarrow> n < length h \<Longrightarrow> i \<le> n \<Longrightarrow> n < length h' \<Longrightarrow>
   agree n (MaxHeap_add_loop h i) (MaxHeap_add_loop h' i)"
proof (induction h i arbitrary: h' rule: MaxHeap_add_loop.induct)
  case (1 h index)
  show ?case
  proof (cases "1 < index")
    case True
    then have b: "1 \<le> index" "1 \<le> index div 2" "index div 2 \<le> n" "index \<le> n"
      using "1.prems"(3) by auto
    have same: "h ! index = h' ! index" "h ! (index div 2) = h' ! (index div 2)"
      using agree_nth [OF "1.prems"(1)] b by simp_all
    show ?thesis
    proof (cases "h ! (index div 2) < h ! index")
      case less: True
      have "agree n (swap h index (index div 2)) (swap h' index (index div 2))"
        using "1.prems"(1,2,4) b by (intro agree_swap) simp_all
      then have "agree n (MaxHeap_add_loop (swap h index (index div 2)) (index div 2))
                         (MaxHeap_add_loop (swap h' index (index div 2)) (index div 2))"
        using True less "1.prems"(2,4) b by (intro "1.IH") simp_all
      then show ?thesis
        using True less same by (simp add: MaxHeap_add_loop_step)
    next
      case False
      then show ?thesis
        using same "1.prems"(1) by (simp add: MaxHeap_add_loop_stop)
    qed
  next
    case False
    then show ?thesis using "1.prems"(1) by (simp add: MaxHeap_add_loop_stop)
  qed
qed

lemma MaxHeap_pop_loop_agree:
  "agree n h h' \<Longrightarrow> n < length h \<Longrightarrow> 1 \<le> i \<Longrightarrow> n < length h' \<Longrightarrow>
   agree n (MaxHeap_pop_loop h n i) (MaxHeap_pop_loop h' n i)"
proof (induction h n i arbitrary: h' rule: MaxHeap_pop_loop.induct)
  case (1 h rs index)
  note ag = "1.prems"(1) and len = "1.prems"(2,4)
  show ?case
  proof (cases "index \<le> rs div 2")
    case False
    then show ?thesis
      using ag by (subst MaxHeap_pop_loop.simps, subst (2) MaxHeap_pop_loop.simps) simp
  next
    case inner: True
    then have l: "1 \<le> index" "index \<le> rs" "1 \<le> index * 2" "index * 2 \<le> rs"
      using "1.prems"(3) by auto
    have same: "h ! index = h' ! index" "h ! (index * 2) = h' ! (index * 2)"
      using agree_nth [OF ag] l by simp_all
    show ?thesis
    proof (cases "index * 2 + 1 > rs")
      case only_left: True
      show ?thesis
      proof (cases "h ! index < h ! (index * 2)")
        case True
        have "agree rs (swap h index (index * 2)) (swap h' index (index * 2))"
          using ag len l by (intro agree_swap) simp_all
        then have "agree rs (MaxHeap_pop_loop (swap h index (index * 2)) rs (index * 2))
                            (MaxHeap_pop_loop (swap h' index (index * 2)) rs (index * 2))"
          using only_left len l by (intro "1.IH"(1) [OF inner refl refl _ True]) simp_all
        then show ?thesis
          using inner only_left True same
          by (subst MaxHeap_pop_loop.simps, subst (2) MaxHeap_pop_loop.simps)
             (simp add: Let_def)
      next
        case False
        then show ?thesis
          using inner only_left same ag
          by (subst MaxHeap_pop_loop.simps, subst (2) MaxHeap_pop_loop.simps)
             (simp add: Let_def)
      qed
    next
      case both: False
      then have r: "1 \<le> index * 2 + 1" "index * 2 + 1 \<le> rs" by simp_all
      have same_r: "h ! (index * 2 + 1) = h' ! (index * 2 + 1)"
        using agree_nth [OF ag r] .
      show ?thesis
      proof (cases "h ! index < h ! (index * 2) \<or> h ! index < h ! (index * 2 + 1)")
        case viol: True
        show ?thesis
        proof (cases "h ! (index * 2) > h ! (index * 2 + 1)")
          case True
          have "agree rs (swap h index (index * 2)) (swap h' index (index * 2))"
            using ag len l by (intro agree_swap) simp_all
          then have "agree rs (MaxHeap_pop_loop (swap h index (index * 2)) rs (index * 2))
                              (MaxHeap_pop_loop (swap h' index (index * 2)) rs (index * 2))"
            using len l by (intro "1.IH"(2) [OF inner refl refl both viol True]) simp_all
          then show ?thesis
            using inner both viol True same same_r
            by (subst MaxHeap_pop_loop.simps, subst (2) MaxHeap_pop_loop.simps)
               (simp add: Let_def)
        next
          case False
          have "agree rs (swap h index (index * 2 + 1)) (swap h' index (index * 2 + 1))"
            using ag len l r by (intro agree_swap) simp_all
          then have "agree rs (MaxHeap_pop_loop (swap h index (index * 2 + 1)) rs (index * 2 + 1))
                              (MaxHeap_pop_loop (swap h' index (index * 2 + 1)) rs (index * 2 + 1))"
            using len l by (intro "1.IH"(3) [OF inner refl refl both viol False]) simp_all
          then show ?thesis
            using inner both viol False same same_r
            by (subst MaxHeap_pop_loop.simps, subst (2) MaxHeap_pop_loop.simps)
               (simp add: Let_def)
        qed
      next
        case False
        then show ?thesis
          using inner both same same_r ag
          by (subst MaxHeap_pop_loop.simps, subst (2) MaxHeap_pop_loop.simps)
             (simp add: Let_def)
      qed
    qed
  qed
qed

lemma agree_map_uminus:
  assumes "agree n h h'" "n < length h" "n < length h'"
  shows "agree n (map uminus h) (map uminus h')"
  using assms by (simp add: agree_def)

lemma MinHeap_add_loop_agree:
  assumes "agree n h h'" "n < length h" "i \<le> n" "n < length h'"
  shows "agree n (MinHeap_add_loop h i) (MinHeap_add_loop h' i)"
proof -
  have "agree n (MaxHeap_add_loop (map uminus h) i) (MaxHeap_add_loop (map uminus h') i)"
    using assms by (intro MaxHeap_add_loop_agree agree_map_uminus) simp_all
  moreover have "n < length (MaxHeap_add_loop (map uminus h) i)"
    "n < length (MaxHeap_add_loop (map uminus h') i)"
    using MaxHeap_add_loop_keeps [of n "map uminus h" i]
      MaxHeap_add_loop_keeps [of n "map uminus h'" i] assms
    by (simp_all add: keeps_def)
  ultimately have "agree n (map uminus (MaxHeap_add_loop (map uminus h) i))
      (map uminus (MaxHeap_add_loop (map uminus h') i))"
    by (intro agree_map_uminus)
  then show ?thesis
    using assms by (simp add: MinHeap_add_loop_negated)
qed

lemma MinHeap_pop_loop_agree:
  assumes "agree n h h'" "n < length h" "1 \<le> i" "n < length h'"
  shows "agree n (MinHeap_pop_loop h n i) (MinHeap_pop_loop h' n i)"
proof -
  have "agree n (MaxHeap_pop_loop (map uminus h) n i) (MaxHeap_pop_loop (map uminus h') n i)"
    using assms by (intro MaxHeap_pop_loop_agree agree_map_uminus) simp_all
  moreover have "n < length (MaxHeap_pop_loop (map uminus h) n i)"
    "n < length (MaxHeap_pop_loop (map uminus h') n i)"
    using MaxHeap_pop_loop_keeps [of n "map uminus h" i]
      MaxHeap_pop_loop_keeps [of n "map uminus h'" i] assms
    by (simp_all add: keeps_def)
  ultimately have "agree n (map uminus (MaxHeap_pop_loop (map uminus h) n i))
      (map uminus (MaxHeap_pop_loop (map uminus h') n i))"
    by (intro agree_map_uminus)
  then show ?thesis
    using assms by (simp add: MinHeap_pop_loop_negated)
qed

section \<open>Objects that show the same content behave the same\<close>

lemma akin_agree: "akin s t \<Longrightarrow> agree (realSize s) (heap s) (heap t)"
  by (simp add: akin_def same_content_def agree_def)

lemma akinI:
  assumes "well_formed s" "well_formed t" "realSize s = realSize t"
    "agree (realSize s) (heap s) (heap t)"
  shows "akin s t"
  using assms by (simp add: akin_def same_content_def agree_def)

lemma akin_simps:
  assumes "akin s t"
  shows "realSize t = realSize s" "well_formed s" "well_formed t"
    "realSize s < length (heap s)" "realSize s < length (heap t)"
  using assms by (simp_all add: akin_def same_content_def well_formed_def)

lemma MaxHeap_add_akin:
  assumes "akin s t" "heapSize s = heapSize t"
  shows "fst (MaxHeap_add s e) = fst (MaxHeap_add t e) \<and>
         akin (snd (MaxHeap_add s e)) (snd (MaxHeap_add t e)) \<and>
         heapSize (snd (MaxHeap_add s e)) = heapSize (snd (MaxHeap_add t e))"
proof (cases "realSize s < heapSize s")
  case False
  then show ?thesis using assms akin_simps [OF assms(1)] by (simp add: MaxHeap_add_full)
next
  case True
  note a = akin_simps [OF assms(1)]
  let ?n = "Suc (realSize s)"
  have room_t: "realSize t < heapSize t" using True a assms(2) by simp
  have len: "?n < length (heap s)" "?n < length (heap t)"
    using True room_t a by (simp_all add: well_formed_def)
  have "agree ?n ((heap s)[?n := e]) ((heap t)[?n := e])"
    using akin_agree [OF assms(1)] len
    by (simp add: agree_def nth_list_update)
  then have "agree ?n (MaxHeap_add_loop ((heap s)[?n := e]) ?n)
                      (MaxHeap_add_loop ((heap t)[?n := e]) ?n)"
    using len by (intro MaxHeap_add_loop_agree) simp_all
  moreover have "snd (MaxHeap_add s e) =
      s\<lparr>heap := MaxHeap_add_loop ((heap s)[?n := e]) ?n, realSize := ?n\<rparr>"
    "snd (MaxHeap_add t e) =
      t\<lparr>heap := MaxHeap_add_loop ((heap t)[?n := e]) ?n, realSize := ?n\<rparr>"
    using True room_t a by (simp_all add: MaxHeap_add_def)
  ultimately have "akin (snd (MaxHeap_add s e)) (snd (MaxHeap_add t e))"
    using MaxHeap_add_room(4) [OF a(2) True, of e] MaxHeap_add_room(4) [OF a(3) room_t, of e] a
    by (intro akinI) simp_all
  then show ?thesis
    using MaxHeap_add_room(1,2) [OF a(2) True, of e] MaxHeap_add_room(1,2) [OF a(3) room_t, of e]
      assms(2)
    by simp
qed

lemma MinHeap_add_akin:
  assumes "akin s t" "heapSize s = heapSize t"
  shows "fst (MinHeap_add s e) = fst (MinHeap_add t e) \<and>
         akin (snd (MinHeap_add s e)) (snd (MinHeap_add t e)) \<and>
         heapSize (snd (MinHeap_add s e)) = heapSize (snd (MinHeap_add t e))"
proof (cases "realSize s < heapSize s")
  case False
  then show ?thesis using assms akin_simps [OF assms(1)] by (simp add: MinHeap_add_full)
next
  case True
  note a = akin_simps [OF assms(1)]
  let ?n = "Suc (realSize s)"
  have room_t: "realSize t < heapSize t" using True a assms(2) by simp
  have len: "?n < length (heap s)" "?n < length (heap t)"
    using True room_t a by (simp_all add: well_formed_def)
  have "agree ?n ((heap s)[?n := e]) ((heap t)[?n := e])"
    using akin_agree [OF assms(1)] len
    by (simp add: agree_def nth_list_update)
  then have "agree ?n (MinHeap_add_loop ((heap s)[?n := e]) ?n)
                      (MinHeap_add_loop ((heap t)[?n := e]) ?n)"
    using len by (intro MinHeap_add_loop_agree) simp_all
  moreover have "snd (MinHeap_add s e) =
      s\<lparr>heap := MinHeap_add_loop ((heap s)[?n := e]) ?n, realSize := ?n\<rparr>"
    "snd (MinHeap_add t e) =
      t\<lparr>heap := MinHeap_add_loop ((heap t)[?n := e]) ?n, realSize := ?n\<rparr>"
    using True room_t a by (simp_all add: MinHeap_add_def)
  ultimately have "akin (snd (MinHeap_add s e)) (snd (MinHeap_add t e))"
    using MinHeap_add_room(4) [OF a(2) True, of e] MinHeap_add_room(4) [OF a(3) room_t, of e] a
    by (intro akinI) simp_all
  then show ?thesis
    using MinHeap_add_room(1,2) [OF a(2) True, of e] MinHeap_add_room(1,2) [OF a(3) room_t, of e]
      assms(2)
    by simp
qed

lemma MaxHeap_pop_akin:
  assumes "akin s t"
  shows "fst (MaxHeap_pop s) = fst (MaxHeap_pop t) \<and>
         fst (snd (MaxHeap_pop s)) = fst (snd (MaxHeap_pop t)) \<and>
         akin (snd (snd (MaxHeap_pop s))) (snd (snd (MaxHeap_pop t)))"
proof (cases "0 < realSize s")
  case False
  then show ?thesis using assms akin_simps [OF assms] by (simp add: MaxHeap_pop_empty)
next
  case True
  note a = akin_simps [OF assms]
  obtain n where n: "realSize s = Suc n" using True by (cases "realSize s") auto
  have pos_t: "0 < realSize t" using True a by simp
  note ag = akin_agree [OF assms]
  have root: "heap s ! 1 = heap t ! 1" and last: "heap s ! Suc n = heap t ! Suc n"
    using agree_nth [OF ag] n by simp_all
  have "agree n ((heap s)[1 := heap s ! Suc n]) ((heap t)[1 := heap t ! Suc n])"
    using ag n last a(4,5) by (auto simp add: agree_def nth_list_update)
  then have "agree n (MaxHeap_pop_loop ((heap s)[1 := heap s ! Suc n]) n 1)
                     (MaxHeap_pop_loop ((heap t)[1 := heap t ! Suc n]) n 1)"
    using a(4,5) n by (intro MaxHeap_pop_loop_agree) simp_all
  moreover have "snd (snd (MaxHeap_pop s)) =
      s\<lparr>heap := MaxHeap_pop_loop ((heap s)[1 := heap s ! Suc n]) n 1, realSize := n\<rparr>"
    "snd (snd (MaxHeap_pop t)) =
      t\<lparr>heap := MaxHeap_pop_loop ((heap t)[1 := heap t ! Suc n]) n 1, realSize := n\<rparr>"
    using n a by (simp_all add: MaxHeap_pop_def Let_def)
  ultimately have "akin (snd (snd (MaxHeap_pop s))) (snd (snd (MaxHeap_pop t)))"
    using MaxHeap_pop_nonempty(5) [OF a(2) True] MaxHeap_pop_nonempty(5) [OF a(3) pos_t] a
    by (intro akinI) simp_all
  then show ?thesis
    using MaxHeap_pop_nonempty(1,2) [OF a(2) True] MaxHeap_pop_nonempty(1,2) [OF a(3) pos_t] root
    by simp
qed

lemma MinHeap_pop_akin:
  assumes "akin s t"
  shows "fst (MinHeap_pop s) = fst (MinHeap_pop t) \<and>
         fst (snd (MinHeap_pop s)) = fst (snd (MinHeap_pop t)) \<and>
         akin (snd (snd (MinHeap_pop s))) (snd (snd (MinHeap_pop t)))"
proof (cases "0 < realSize s")
  case False
  then show ?thesis using assms akin_simps [OF assms] by (simp add: MinHeap_pop_empty)
next
  case True
  note a = akin_simps [OF assms]
  obtain n where n: "realSize s = Suc n" using True by (cases "realSize s") auto
  have pos_t: "0 < realSize t" using True a by simp
  note ag = akin_agree [OF assms]
  have root: "heap s ! 1 = heap t ! 1" and last: "heap s ! Suc n = heap t ! Suc n"
    using agree_nth [OF ag] n by simp_all
  have "agree n ((heap s)[1 := heap s ! Suc n]) ((heap t)[1 := heap t ! Suc n])"
    using ag n last a(4,5) by (auto simp add: agree_def nth_list_update)
  then have "agree n (MinHeap_pop_loop ((heap s)[1 := heap s ! Suc n]) n 1)
                     (MinHeap_pop_loop ((heap t)[1 := heap t ! Suc n]) n 1)"
    using a(4,5) n by (intro MinHeap_pop_loop_agree) simp_all
  moreover have "snd (snd (MinHeap_pop s)) =
      s\<lparr>heap := MinHeap_pop_loop ((heap s)[1 := heap s ! Suc n]) n 1, realSize := n\<rparr>"
    "snd (snd (MinHeap_pop t)) =
      t\<lparr>heap := MinHeap_pop_loop ((heap t)[1 := heap t ! Suc n]) n 1, realSize := n\<rparr>"
    using n a by (simp_all add: MinHeap_pop_def Let_def)
  ultimately have "akin (snd (snd (MinHeap_pop s))) (snd (snd (MinHeap_pop t)))"
    using MinHeap_pop_nonempty(5) [OF a(2) True] MinHeap_pop_nonempty(5) [OF a(3) pos_t] a
    by (intro akinI) simp_all
  then show ?thesis
    using MinHeap_pop_nonempty(1,2) [OF a(2) True] MinHeap_pop_nonempty(1,2) [OF a(3) pos_t] root
    by simp
qed

lemma peek_akin:
  assumes "akin s t"
  shows "MaxHeap_peek s = MaxHeap_peek t" "MinHeap_peek s = MinHeap_peek t"
proof -
  have "heap s ! 1 = heap t ! 1" if "0 < realSize s"
    using agree_nth [OF akin_agree [OF assms], of 1] that by simp
  then show "MaxHeap_peek s = MaxHeap_peek t" "MinHeap_peek s = MinHeap_peek t"
    using akin_simps(1) [OF assms] by (auto simp: MaxHeap_peek_def MinHeap_peek_def)
qed

lemma toString_akin:
  assumes "akin s t"
  shows "MaxHeap_toString s = MaxHeap_toString t" "MinHeap_toString s = MinHeap_toString t"
proof -
  have eq: "map (\<lambda>k. show_int (heap s ! k)) [1..<Suc (realSize s)] =
        map (\<lambda>k. show_int (heap t ! k)) [1..<Suc (realSize s)]"
    using agree_nth [OF akin_agree [OF assms]] by (intro map_cong) (simp_all del: upt_Suc)
  show "MaxHeap_toString s = MaxHeap_toString t" "MinHeap_toString s = MinHeap_toString t"
    unfolding MaxHeap_toString_def MinHeap_toString_def toString_loop_eq
      akin_simps(1) [OF assms] eq
    by (rule refl)+
qed

lemma heapSize_call:
  "heapSize (snd (MaxHeap_call s c)) = heapSize s"
  "heapSize (snd (MinHeap_call s c)) = heapSize s"
  by (cases c; simp add: MaxHeap_add_def MaxHeap_pop_def MinHeap_add_def MinHeap_pop_def
        MaxHeap_peek_def MinHeap_peek_def Let_def)+

lemma MaxHeap_call_akin:
  assumes "akin s t" "is_add c \<longrightarrow> heapSize s = heapSize t"
  shows "fst (MaxHeap_call s c) = fst (MaxHeap_call t c) \<and>
         akin (snd (MaxHeap_call s c)) (snd (MaxHeap_call t c))"
proof (cases c)
  case (Add e)
  then show ?thesis using MaxHeap_add_akin [OF assms(1), of e] assms(2) by (simp add: split_beta)
next
  case Peek
  then show ?thesis using peek_akin(1) [OF assms(1)] assms(1) by (simp add: split_beta)
next
  case Pop
  then show ?thesis using MaxHeap_pop_akin [OF assms(1)] by (simp add: split_beta)
next
  case Size
  then show ?thesis using akin_simps(1) [OF assms(1)] assms(1) by (simp add: MaxHeap_size_def)
next
  case ToString
  then show ?thesis using toString_akin(1) [OF assms(1)] assms(1) by simp
qed

lemma MinHeap_call_akin:
  assumes "akin s t" "is_add c \<longrightarrow> heapSize s = heapSize t"
  shows "fst (MinHeap_call s c) = fst (MinHeap_call t c) \<and>
         akin (snd (MinHeap_call s c)) (snd (MinHeap_call t c))"
proof (cases c)
  case (Add e)
  then show ?thesis using MinHeap_add_akin [OF assms(1), of e] assms(2) by (simp add: split_beta)
next
  case Peek
  then show ?thesis using peek_akin(2) [OF assms(1)] assms(1) by (simp add: split_beta)
next
  case Pop
  then show ?thesis using MinHeap_pop_akin [OF assms(1)] by (simp add: split_beta)
next
  case Size
  then show ?thesis using akin_simps(1) [OF assms(1)] assms(1) by (simp add: MinHeap_size_def)
next
  case ToString
  then show ?thesis using toString_akin(2) [OF assms(1)] assms(1) by simp
qed

lemma MaxHeap_run_akin:
  "akin s t \<Longrightarrow> (\<exists>c \<in> set cs. is_add c) \<longrightarrow> heapSize s = heapSize t \<Longrightarrow>
   fst (MaxHeap_run s cs) = fst (MaxHeap_run t cs) \<and>
   akin (snd (MaxHeap_run s cs)) (snd (MaxHeap_run t cs))"
proof (induction cs arbitrary: s t)
  case Nil
  then show ?case by simp
next
  case (Cons c cs)
  have "is_add c \<longrightarrow> heapSize s = heapSize t" using Cons.prems(2) by simp
  from MaxHeap_call_akin [OF Cons.prems(1) this]
  have r: "fst (MaxHeap_call s c) = fst (MaxHeap_call t c)"
    and a: "akin (snd (MaxHeap_call s c)) (snd (MaxHeap_call t c))" by simp_all
  have "(\<exists>c \<in> set cs. is_add c) \<longrightarrow>
      heapSize (snd (MaxHeap_call s c)) = heapSize (snd (MaxHeap_call t c))"
    using Cons.prems(2) by (simp add: heapSize_call)
  from Cons.IH [OF a this] r show ?case by (simp add: split_beta)
qed

lemma MinHeap_run_akin:
  "akin s t \<Longrightarrow> (\<exists>c \<in> set cs. is_add c) \<longrightarrow> heapSize s = heapSize t \<Longrightarrow>
   fst (MinHeap_run s cs) = fst (MinHeap_run t cs) \<and>
   akin (snd (MinHeap_run s cs)) (snd (MinHeap_run t cs))"
proof (induction cs arbitrary: s t)
  case Nil
  then show ?case by simp
next
  case (Cons c cs)
  have "is_add c \<longrightarrow> heapSize s = heapSize t" using Cons.prems(2) by simp
  from MinHeap_call_akin [OF Cons.prems(1) this]
  have r: "fst (MinHeap_call s c) = fst (MinHeap_call t c)"
    and a: "akin (snd (MinHeap_call s c)) (snd (MinHeap_call t c))" by simp_all
  have "(\<exists>c \<in> set cs. is_add c) \<longrightarrow>
      heapSize (snd (MinHeap_call s c)) = heapSize (snd (MinHeap_call t c))"
    using Cons.prems(2) by (simp add: heapSize_call)
  from Cons.IH [OF a this] r show ?case by (simp add: split_beta)
qed


section \<open>The heap property\<close>

text \<open>
  Claim C1. Take a heap as its constructor leaves it and run any sequence of calls on it
  (\<^verbatim>\<open>add\<close> and \<^verbatim>\<open>pop\<close>, and the three \<^verbatim>\<open>const\<close> methods as well). Afterwards the heap
  property holds: for every \<open>i\<close> from 2 to \<open>realSize\<close>, slot \<open>i div 2\<close> is at least slot
  \<open>i\<close> in a MaxHeap and at most slot \<open>i\<close> in a MinHeap.
\<close>

theorem heap_property_after_calls:
  "(MaxHeap_init capacity = Some s \<longrightarrow> MaxHeap_property (snd (MaxHeap_run s calls))) \<and>
   (MinHeap_init capacity = Some s \<longrightarrow> MinHeap_property (snd (MinHeap_run s calls)))"
  using MaxHeap_run_invariant [of s calls] MinHeap_run_invariant [of s calls]
    MaxHeap_init_Some(1,4) [of capacity s] MinHeap_init_Some(1,4) [of capacity s]
  by blast

theorem heap_property_after_calls_witness:
  "MaxHeap_init 4 = Some \<lparr>heap = [0, 0, 0, 0, 0], heapSize = 4, realSize = 0\<rparr> \<and>
   MinHeap_init 4 = Some \<lparr>heap = [0, 0, 0, 0, 0], heapSize = 4, realSize = 0\<rparr> \<and>
   snd (MaxHeap_run \<lparr>heap = [0, 0, 0, 0, 0], heapSize = 4, realSize = 0\<rparr>
         [Add 3, Add 9, Add 5, Pop, Add 7, Add 8])
     = \<lparr>heap = [0, 8, 7, 5, 3], heapSize = 4, realSize = 4\<rparr> \<and>
   MaxHeap_property \<lparr>heap = [0, 8, 7, 5, 3], heapSize = 4, realSize = 4\<rparr> \<and>
   snd (MinHeap_run \<lparr>heap = [0, 0, 0, 0, 0], heapSize = 4, realSize = 0\<rparr>
         [Add 3, Add 9, Add 5, Pop, Add 7, Add 8])
     = \<lparr>heap = [0, 5, 8, 7, 9], heapSize = 4, realSize = 4\<rparr> \<and>
   MinHeap_property \<lparr>heap = [0, 5, 8, 7, 9], heapSize = 4, realSize = 4\<rparr>"
proof -
  let ?s0 = "\<lparr>heap = [0, 0, 0, 0, 0], heapSize = 4, realSize = 0\<rparr>"
  let ?cs = "[Add 3, Add 9, Add 5, Pop, Add 7, Add 8]"
  have i1: "MaxHeap_init 4 = Some ?s0" by code_simp
  have i2: "MinHeap_init 4 = Some ?s0" by code_simp
  have r1: "snd (MaxHeap_run ?s0 ?cs) = \<lparr>heap = [0, 8, 7, 5, 3], heapSize = 4, realSize = 4\<rparr>"
    by code_simp
  have r2: "snd (MinHeap_run ?s0 ?cs) = \<lparr>heap = [0, 5, 8, 7, 9], heapSize = 4, realSize = 4\<rparr>"
    by code_simp
  from heap_property_after_calls [of 4 ?s0 ?cs] i1 i2 r1 r2 show ?thesis by simp
qed

section \<open>Extraction order\<close>

text \<open>
  Claim C2. A heap as its constructor leaves it, of capacity at least \<open>n\<close>, receives the
  \<open>n\<close> elements \<open>xs\<close> by \<^verbatim>\<open>add\<close> and is then emptied by \<open>n\<close> calls of \<^verbatim>\<open>pop\<close>. Every
  \<^verbatim>\<open>add\<close> returns without a message, and the values the \<open>n\<close> calls of \<^verbatim>\<open>pop\<close> return,
  in order, are the inserted elements sorted: non-increasing for MaxHeap (the reverse of
  \<open>sort xs\<close>), non-decreasing for MinHeap (\<open>sort xs\<close>).
\<close>

theorem extraction_order:
  assumes "int (length xs) \<le> capacity"
  shows "(MaxHeap_init capacity = Some s \<longrightarrow>
            fst (MaxHeap_run s (map Add xs @ replicate (length xs) Pop)) =
              replicate (length xs) (Void, []) @ map (\<lambda>v. (IntVal v, [])) (rev (sort xs))) \<and>
         (MinHeap_init capacity = Some s \<longrightarrow>
            fst (MinHeap_run s (map Add xs @ replicate (length xs) Pop)) =
              replicate (length xs) (Void, []) @ map (\<lambda>v. (IntVal v, [])) (sort xs))"
proof (intro conjI impI)
  assume init: "MaxHeap_init capacity = Some s"
  note i = MaxHeap_init_Some [OF init]
  let ?s1 = "snd (MaxHeap_run s (map Add xs))"
  have "realSize s + length xs \<le> heapSize s" using i(2,3) assms by simp
  note a = MaxHeap_run_adds [OF i(1,4) this]
  have "mset (stored ?s1) = mset xs" using a stored_init(1) [OF init] by simp
  then have "sort (stored ?s1) = sort xs" by (metis properties_for_sort sorted_sort mset_sort)
  moreover have "fst (MaxHeap_run ?s1 (replicate (length xs) Pop)) =
      map (\<lambda>v. (IntVal v, [])) (rev (sort (stored ?s1)))"
    using a i(2) by (intro MaxHeap_run_pops) simp_all
  ultimately show "fst (MaxHeap_run s (map Add xs @ replicate (length xs) Pop)) =
      replicate (length xs) (Void, []) @ map (\<lambda>v. (IntVal v, [])) (rev (sort xs))"
    using a by (simp add: MaxHeap_run_append)
next
  assume init: "MinHeap_init capacity = Some s"
  note i = MinHeap_init_Some [OF init]
  let ?s1 = "snd (MinHeap_run s (map Add xs))"
  have "realSize s + length xs \<le> heapSize s" using i(2,3) assms by simp
  note a = MinHeap_run_adds [OF i(1,4) this]
  have "mset (stored ?s1) = mset xs" using a stored_init(2) [OF init] by simp
  then have "sort (stored ?s1) = sort xs" by (metis properties_for_sort sorted_sort mset_sort)
  moreover have "fst (MinHeap_run ?s1 (replicate (length xs) Pop)) =
      map (\<lambda>v. (IntVal v, [])) (sort (stored ?s1))"
    using a i(2) by (intro MinHeap_run_pops) simp_all
  ultimately show "fst (MinHeap_run s (map Add xs @ replicate (length xs) Pop)) =
      replicate (length xs) (Void, []) @ map (\<lambda>v. (IntVal v, [])) (sort xs)"
    using a by (simp add: MinHeap_run_append)
qed

theorem extraction_order_witness:
  "int (length [4, 1, 3, 1 :: int]) \<le> 5 \<and>
   MaxHeap_init 5 = Some \<lparr>heap = [0, 0, 0, 0, 0, 0], heapSize = 5, realSize = 0\<rparr> \<and>
   MinHeap_init 5 = Some \<lparr>heap = [0, 0, 0, 0, 0, 0], heapSize = 5, realSize = 0\<rparr> \<and>
   fst (MaxHeap_run \<lparr>heap = [0, 0, 0, 0, 0, 0], heapSize = 5, realSize = 0\<rparr>
          [Add 4, Add 1, Add 3, Add 1, Pop, Pop, Pop, Pop]) =
     [(Void, []), (Void, []), (Void, []), (Void, []),
      (IntVal 4, []), (IntVal 3, []), (IntVal 1, []), (IntVal 1, [])] \<and>
   fst (MinHeap_run \<lparr>heap = [0, 0, 0, 0, 0, 0], heapSize = 5, realSize = 0\<rparr>
          [Add 4, Add 1, Add 3, Add 1, Pop, Pop, Pop, Pop]) =
     [(Void, []), (Void, []), (Void, []), (Void, []),
      (IntVal 1, []), (IntVal 1, []), (IntVal 3, []), (IntVal 4, [])]"
proof -
  let ?s0 = "\<lparr>heap = [0, 0, 0, 0, 0, 0], heapSize = 5, realSize = 0\<rparr>"
  let ?xs = "[4, 1, 3, 1 :: int]"
  have le: "int (length ?xs) \<le> 5" by simp
  have i1: "MaxHeap_init 5 = Some ?s0" by code_simp
  have i2: "MinHeap_init 5 = Some ?s0" by code_simp
  have s: "sort ?xs = [1, 1, 3, 4]" by code_simp
  from extraction_order [OF le, of ?s0] i1 i2 s le show ?thesis
    by (simp add: numeral_eq_Suc)
qed

section \<open>The capacity boundary\<close>

text \<open>
  Claim C3, as stated: on a heap with \<open>realSize = heapSize\<close>, \<^verbatim>\<open>add\<close> fails with a
  capacity-exceeded condition reported to the caller, and leaves the heap unchanged. The
  second half holds. The first does not: \<^verbatim>\<open>add\<close> returns \<^verbatim>\<open>void\<close> on every path and throws
  nothing, so the caller receives from the call on a full heap exactly what it receives from
  a call that stores the element. Both classes, capacity 1, adding 7: to the full heap
  holding 5 (what \<^verbatim>\<open>add(5)\<close> makes of the constructed heap; unchanged afterwards) and
  to the constructed heap (holding 7 afterwards).
\<close>

theorem add_on_full_heap_returns_no_error:
  "MaxHeap_init 1 = Some \<lparr>heap = [0, 0], heapSize = 1, realSize = 0\<rparr> \<and>
   MinHeap_init 1 = Some \<lparr>heap = [0, 0], heapSize = 1, realSize = 0\<rparr> \<and>
   snd (MaxHeap_call \<lparr>heap = [0, 0], heapSize = 1, realSize = 0\<rparr> (Add 5)) =
     \<lparr>heap = [0, 5], heapSize = 1, realSize = 1\<rparr> \<and>
   snd (MinHeap_call \<lparr>heap = [0, 0], heapSize = 1, realSize = 0\<rparr> (Add 5)) =
     \<lparr>heap = [0, 5], heapSize = 1, realSize = 1\<rparr> \<and>
   fst (fst (MaxHeap_call \<lparr>heap = [0, 5], heapSize = 1, realSize = 1\<rparr> (Add 7))) = Void \<and>
   fst (fst (MaxHeap_call \<lparr>heap = [0, 0], heapSize = 1, realSize = 0\<rparr> (Add 7))) = Void \<and>
   fst (fst (MinHeap_call \<lparr>heap = [0, 5], heapSize = 1, realSize = 1\<rparr> (Add 7))) = Void \<and>
   fst (fst (MinHeap_call \<lparr>heap = [0, 0], heapSize = 1, realSize = 0\<rparr> (Add 7))) = Void \<and>
   snd (fst (MaxHeap_call \<lparr>heap = [0, 5], heapSize = 1, realSize = 1\<rparr> (Add 7))) =
     [''Added too many Elements!''] \<and>
   snd (MaxHeap_call \<lparr>heap = [0, 5], heapSize = 1, realSize = 1\<rparr> (Add 7)) =
     \<lparr>heap = [0, 5], heapSize = 1, realSize = 1\<rparr> \<and>
   snd (MaxHeap_call \<lparr>heap = [0, 0], heapSize = 1, realSize = 0\<rparr> (Add 7)) =
     \<lparr>heap = [0, 7], heapSize = 1, realSize = 1\<rparr>"
  by code_simp


text \<open>
  Claim C3, amended: on a heap with \<open>realSize = heapSize\<close>, \<^verbatim>\<open>add\<close> of any element writes
  the line \<^verbatim>\<open>Added too many Elements!\<close> to \<^verbatim>\<open>cout\<close>, returns nothing to the caller, and
  leaves the object as it was: the same \<^verbatim>\<open>size()\<close>, the same \<^verbatim>\<open>peek()\<close>, the same stored
  sequence.
\<close>

theorem add_on_full_heap:
  assumes "realSize s = heapSize s"
  shows "MaxHeap_call s (Add element) = ((Void, [''Added too many Elements!'']), s) \<and>
         MinHeap_call s (Add element) = ((Void, [''Added too many Elements!'']), s) \<and>
         MaxHeap_size (snd (MaxHeap_call s (Add element))) = MaxHeap_size s \<and>
         MaxHeap_peek (snd (MaxHeap_call s (Add element))) = MaxHeap_peek s \<and>
         MinHeap_size (snd (MinHeap_call s (Add element))) = MinHeap_size s \<and>
         MinHeap_peek (snd (MinHeap_call s (Add element))) = MinHeap_peek s \<and>
         stored (snd (MaxHeap_call s (Add element))) = stored s \<and>
         stored (snd (MinHeap_call s (Add element))) = stored s"
  using assms [symmetric] by (simp add: MaxHeap_add_def MinHeap_add_def)

theorem add_on_full_heap_witness:
  "realSize \<lparr>heap = [0, 5, 4], heapSize = 2, realSize = 2\<rparr> =
     heapSize \<lparr>heap = [0, 5, 4], heapSize = 2, realSize = 2\<rparr> \<and>
   MaxHeap_call \<lparr>heap = [0, 5, 4], heapSize = 2, realSize = 2\<rparr> (Add 9) =
     ((Void, [''Added too many Elements!'']), \<lparr>heap = [0, 5, 4], heapSize = 2, realSize = 2\<rparr>) \<and>
   MinHeap_call \<lparr>heap = [0, 5, 4], heapSize = 2, realSize = 2\<rparr> (Add 9) =
     ((Void, [''Added too many Elements!'']), \<lparr>heap = [0, 5, 4], heapSize = 2, realSize = 2\<rparr>)"
  using add_on_full_heap [of "\<lparr>heap = [0, 5, 4], heapSize = 2, realSize = 2\<rparr>" 9]
  by simp


section \<open>The empty boundary\<close>

text \<open>
  Claim C4, as stated: on a heap with \<open>realSize = 0\<close>, \<^verbatim>\<open>peek\<close> and \<^verbatim>\<open>pop\<close> report an
  empty-heap condition to the caller instead of returning a sentinel that cannot be told
  from stored data. They do return such a sentinel: the value \<^verbatim>\<open>peek\<close> and \<^verbatim>\<open>pop\<close> return
  on an empty heap of capacity 1 is the value they return on the heap that \<^verbatim>\<open>add\<close> makes of
  it when given that very number.
\<close>

theorem empty_heap_sentinel_is_a_storable_value:
  "MaxHeap_init 1 = Some \<lparr>heap = [0, 0], heapSize = 1, realSize = 0\<rparr> \<and>
   MinHeap_init 1 = Some \<lparr>heap = [0, 0], heapSize = 1, realSize = 0\<rparr> \<and>
   fst (MaxHeap_peek \<lparr>heap = [0, 0], heapSize = 1, realSize = 0\<rparr>) =
     fst (MaxHeap_peek \<lparr>heap = [0, 2147483647], heapSize = 1, realSize = 1\<rparr>) \<and>
   fst (MaxHeap_pop \<lparr>heap = [0, 0], heapSize = 1, realSize = 0\<rparr>) =
     fst (MaxHeap_pop \<lparr>heap = [0, - 2147483648], heapSize = 1, realSize = 1\<rparr>) \<and>
   fst (MinHeap_peek \<lparr>heap = [0, 0], heapSize = 1, realSize = 0\<rparr>) =
     fst (MinHeap_peek \<lparr>heap = [0, 2147483647], heapSize = 1, realSize = 1\<rparr>) \<and>
   fst (MinHeap_pop \<lparr>heap = [0, 0], heapSize = 1, realSize = 0\<rparr>) =
     fst (MinHeap_pop \<lparr>heap = [0, 2147483647], heapSize = 1, realSize = 1\<rparr>) \<and>
   snd (MaxHeap_add \<lparr>heap = [0, 0], heapSize = 1, realSize = 0\<rparr> 2147483647) =
     \<lparr>heap = [0, 2147483647], heapSize = 1, realSize = 1\<rparr> \<and>
   snd (MaxHeap_add \<lparr>heap = [0, 0], heapSize = 1, realSize = 0\<rparr> (- 2147483648)) =
     \<lparr>heap = [0, - 2147483648], heapSize = 1, realSize = 1\<rparr> \<and>
   snd (MinHeap_add \<lparr>heap = [0, 0], heapSize = 1, realSize = 0\<rparr> 2147483647) =
     \<lparr>heap = [0, 2147483647], heapSize = 1, realSize = 1\<rparr>"
  by code_simp


text \<open>
  Claim C4, amended: on a heap with \<open>realSize = 0\<close>, \<^verbatim>\<open>peek\<close> and \<^verbatim>\<open>pop\<close> write the line
  \<^verbatim>\<open>Don't have any element\<close> to \<^verbatim>\<open>cout\<close> and return a constant to the caller
  (\<^verbatim>\<open>INT_MAX\<close>, and \<^verbatim>\<open>INT_MIN\<close> from \<^verbatim>\<open>MaxHeap::pop\<close>), as their doc comments say; the
  object is unchanged by the call.
\<close>

theorem peek_and_pop_on_empty_heap:
  assumes "realSize s = 0"
  shows "MaxHeap_call s Peek = ((IntVal INT_MAX, [''Don't have any element'']), s) \<and>
         MaxHeap_call s Pop = ((IntVal INT_MIN, [''Don't have any element'']), s) \<and>
         MinHeap_call s Peek = ((IntVal INT_MAX, [''Don't have any element'']), s) \<and>
         MinHeap_call s Pop = ((IntVal INT_MAX, [''Don't have any element'']), s)"
  using assms
  by (simp add: MaxHeap_peek_def MaxHeap_pop_def MinHeap_peek_def MinHeap_pop_def)

theorem peek_and_pop_on_empty_heap_witness:
  "realSize \<lparr>heap = [0, 3, 8], heapSize = 2, realSize = 0\<rparr> = 0 \<and>
   MaxHeap_call \<lparr>heap = [0, 3, 8], heapSize = 2, realSize = 0\<rparr> Peek =
     ((IntVal 2147483647, [''Don't have any element'']),
      \<lparr>heap = [0, 3, 8], heapSize = 2, realSize = 0\<rparr>) \<and>
   MaxHeap_call \<lparr>heap = [0, 3, 8], heapSize = 2, realSize = 0\<rparr> Pop =
     ((IntVal (- 2147483648), [''Don't have any element'']),
      \<lparr>heap = [0, 3, 8], heapSize = 2, realSize = 0\<rparr>) \<and>
   MinHeap_call \<lparr>heap = [0, 3, 8], heapSize = 2, realSize = 0\<rparr> Peek =
     ((IntVal 2147483647, [''Don't have any element'']),
      \<lparr>heap = [0, 3, 8], heapSize = 2, realSize = 0\<rparr>) \<and>
   MinHeap_call \<lparr>heap = [0, 3, 8], heapSize = 2, realSize = 0\<rparr> Pop =
     ((IntVal 2147483647, [''Don't have any element'']),
      \<lparr>heap = [0, 3, 8], heapSize = 2, realSize = 0\<rparr>)"
  using peek_and_pop_on_empty_heap [of "\<lparr>heap = [0, 3, 8], heapSize = 2, realSize = 0\<rparr>"]
  by (simp add: INT_MAX_def INT_MIN_def)


section \<open>The values returned on an empty heap\<close>

text \<open>
  Claim C5. On a heap with \<open>realSize = 0\<close>, \<^verbatim>\<open>peek\<close> returns \<^verbatim>\<open>INT_MAX\<close> in both classes,
  and \<^verbatim>\<open>pop\<close> returns \<^verbatim>\<open>INT_MIN\<close> in MaxHeap but \<^verbatim>\<open>INT_MAX\<close> in MinHeap. These values
  cannot be told from a legitimately stored element. Let \<open>t\<close> be a well-formed empty heap
  with room for one element. For every \<open>x\<close>, \<^verbatim>\<open>add(x)\<close> on \<open>t\<close> stores it without a message
  (\<open>realSize\<close> becomes 1 and the stored sequence is \<open>[x]\<close>), and on the heap so obtained
  \<^verbatim>\<open>peek\<close> returns \<open>x\<close> and \<^verbatim>\<open>pop\<close> returns \<open>x\<close> and empties the heap, both without a message.
  With the constant for \<open>x\<close>, the value returned for the stored element is the value the
  empty heap returns.
\<close>

theorem empty_heap_return_values:
  assumes "realSize s = 0" and "well_formed t" "realSize t = 0" "0 < heapSize t"
  shows "fst (MaxHeap_peek s) = INT_MAX \<and> fst (MinHeap_peek s) = INT_MAX \<and>
         fst (MaxHeap_pop s) = INT_MIN \<and> fst (MinHeap_pop s) = INT_MAX \<and>
         fst (MaxHeap_add t x) = [] \<and> realSize (snd (MaxHeap_add t x)) = 1 \<and>
         stored (snd (MaxHeap_add t x)) = [x] \<and>
         MaxHeap_peek (snd (MaxHeap_add t x)) = (x, []) \<and>
         fst (MaxHeap_pop (snd (MaxHeap_add t x))) = x \<and>
         fst (snd (MaxHeap_pop (snd (MaxHeap_add t x)))) = [] \<and>
         realSize (snd (snd (MaxHeap_pop (snd (MaxHeap_add t x))))) = 0 \<and>
         fst (MinHeap_add t x) = [] \<and> realSize (snd (MinHeap_add t x)) = 1 \<and>
         stored (snd (MinHeap_add t x)) = [x] \<and>
         MinHeap_peek (snd (MinHeap_add t x)) = (x, []) \<and>
         fst (MinHeap_pop (snd (MinHeap_add t x))) = x \<and>
         fst (snd (MinHeap_pop (snd (MinHeap_add t x)))) = [] \<and>
         realSize (snd (snd (MinHeap_pop (snd (MinHeap_add t x))))) = 0 \<and>
         fst (MaxHeap_peek (snd (MaxHeap_add t INT_MAX))) = fst (MaxHeap_peek s) \<and>
         fst (MinHeap_peek (snd (MinHeap_add t INT_MAX))) = fst (MinHeap_peek s) \<and>
         fst (MaxHeap_pop (snd (MaxHeap_add t INT_MIN))) = fst (MaxHeap_pop s) \<and>
         fst (MinHeap_pop (snd (MinHeap_add t INT_MAX))) = fst (MinHeap_pop s)"
proof -
  note amax = MaxHeap_add_first [OF assms(2-4)]
  note amin = MinHeap_add_first [OF assms(2-4)]
  have empty: "fst (MaxHeap_peek s) = INT_MAX" "fst (MinHeap_peek s) = INT_MAX"
    "fst (MaxHeap_pop s) = INT_MIN" "fst (MinHeap_pop s) = INT_MAX"
    using assms(1)
    by (simp_all add: MaxHeap_peek_def MinHeap_peek_def MaxHeap_pop_def MinHeap_pop_def)
  have max1: "MaxHeap_peek (snd (MaxHeap_add t e)) = (e, [])"
    "fst (MaxHeap_pop (snd (MaxHeap_add t e))) = e"
    "fst (snd (MaxHeap_pop (snd (MaxHeap_add t e)))) = []"
    "realSize (snd (snd (MaxHeap_pop (snd (MaxHeap_add t e))))) = 0" for e
    using MaxHeap_single [OF amax(4) amax(2), of e] amax(3) [of e] by simp_all
  have min1: "MinHeap_peek (snd (MinHeap_add t e)) = (e, [])"
    "fst (MinHeap_pop (snd (MinHeap_add t e))) = e"
    "fst (snd (MinHeap_pop (snd (MinHeap_add t e)))) = []"
    "realSize (snd (snd (MinHeap_pop (snd (MinHeap_add t e))))) = 0" for e
    using MinHeap_single [OF amin(4) amin(2), of e] amin(3) [of e] by simp_all
  show ?thesis
    by (simp add: empty amax(1,2,5) amin(1,2,5) max1 min1)
qed

theorem empty_heap_return_values_witness:
  "realSize \<lparr>heap = [0, 0, 0], heapSize = 2, realSize = 0\<rparr> = 0 \<and>
   well_formed \<lparr>heap = [0, 0, 0], heapSize = 2, realSize = 0\<rparr> \<and>
   0 < heapSize \<lparr>heap = [0, 0, 0], heapSize = 2, realSize = 0\<rparr> \<and>
   fst (MaxHeap_peek \<lparr>heap = [0, 0, 0], heapSize = 2, realSize = 0\<rparr>) = 2147483647 \<and>
   fst (MaxHeap_pop \<lparr>heap = [0, 0, 0], heapSize = 2, realSize = 0\<rparr>) = - 2147483648 \<and>
   MaxHeap_add \<lparr>heap = [0, 0, 0], heapSize = 2, realSize = 0\<rparr> 2147483647 =
     ([], \<lparr>heap = [0, 2147483647, 0], heapSize = 2, realSize = 1\<rparr>) \<and>
   stored \<lparr>heap = [0, 2147483647, 0], heapSize = 2, realSize = 1\<rparr> = [2147483647] \<and>
   MaxHeap_peek \<lparr>heap = [0, 2147483647, 0], heapSize = 2, realSize = 1\<rparr> = (2147483647, []) \<and>
   fst (MaxHeap_peek (snd (MaxHeap_add \<lparr>heap = [0, 0, 0], heapSize = 2, realSize = 0\<rparr> INT_MAX)))
     = fst (MaxHeap_peek \<lparr>heap = [0, 0, 0], heapSize = 2, realSize = 0\<rparr>) \<and>
   fst (MaxHeap_pop (snd (MaxHeap_add \<lparr>heap = [0, 0, 0], heapSize = 2, realSize = 0\<rparr> INT_MIN)))
     = fst (MaxHeap_pop \<lparr>heap = [0, 0, 0], heapSize = 2, realSize = 0\<rparr>)"
proof -
  let ?s = "\<lparr>heap = [0, 0, 0], heapSize = 2, realSize = 0\<rparr>"
  have w: "well_formed ?s" by (simp add: well_formed_def)
  have a: "MaxHeap_add ?s 2147483647 =
     ([], \<lparr>heap = [0, 2147483647, 0], heapSize = 2, realSize = 1\<rparr>)" by code_simp
  from empty_heap_return_values [of ?s ?s 2147483647] w a show ?thesis
    by (simp add: INT_MAX_def INT_MIN_def)
qed

section \<open>Size accounting\<close>

text \<open>
  Claim C6. After any sequence of calls on a heap as its constructor leaves it, \<^verbatim>\<open>size()\<close>
  is the number of successful calls of \<^verbatim>\<open>add\<close> minus the number of successful calls of
  \<^verbatim>\<open>pop\<close> in the sequence; an \<^verbatim>\<open>add\<close> on a full heap and a \<^verbatim>\<open>pop\<close> on an empty heap count
  for nothing. The sequence is arbitrary, so this holds at every point of a longer one.
\<close>

theorem size_accounting:
  "(MaxHeap_init capacity = Some s \<longrightarrow>
      MaxHeap_size (snd (MaxHeap_run s calls)) =
        int (successful_adds calls (fst (MaxHeap_run s calls))) -
        int (successful_pops calls (fst (MaxHeap_run s calls)))) \<and>
   (MinHeap_init capacity = Some s \<longrightarrow>
      MinHeap_size (snd (MinHeap_run s calls)) =
        int (successful_adds calls (fst (MinHeap_run s calls))) -
        int (successful_pops calls (fst (MinHeap_run s calls))))"
  using MaxHeap_run_size [of s calls] MinHeap_run_size [of s calls]
    MaxHeap_init_Some(2) [of capacity s] MinHeap_init_Some(2) [of capacity s]
  by (simp add: MaxHeap_size_def MinHeap_size_def)

theorem size_accounting_witness:
  "MaxHeap_init 2 = Some \<lparr>heap = [0, 0, 0], heapSize = 2, realSize = 0\<rparr> \<and>
   MinHeap_init 2 = Some \<lparr>heap = [0, 0, 0], heapSize = 2, realSize = 0\<rparr> \<and>
   successful_adds [Pop, Add 5, Add 6, Add 7, Size, Pop]
     (fst (MaxHeap_run \<lparr>heap = [0, 0, 0], heapSize = 2, realSize = 0\<rparr>
        [Pop, Add 5, Add 6, Add 7, Size, Pop])) = 2 \<and>
   successful_pops [Pop, Add 5, Add 6, Add 7, Size, Pop]
     (fst (MaxHeap_run \<lparr>heap = [0, 0, 0], heapSize = 2, realSize = 0\<rparr>
        [Pop, Add 5, Add 6, Add 7, Size, Pop])) = 1 \<and>
   MaxHeap_size (snd (MaxHeap_run \<lparr>heap = [0, 0, 0], heapSize = 2, realSize = 0\<rparr>
        [Pop, Add 5, Add 6, Add 7, Size, Pop])) = 1 \<and>
   successful_adds [Pop, Add 5, Add 6, Add 7, Size, Pop]
     (fst (MinHeap_run \<lparr>heap = [0, 0, 0], heapSize = 2, realSize = 0\<rparr>
        [Pop, Add 5, Add 6, Add 7, Size, Pop])) = 2 \<and>
   successful_pops [Pop, Add 5, Add 6, Add 7, Size, Pop]
     (fst (MinHeap_run \<lparr>heap = [0, 0, 0], heapSize = 2, realSize = 0\<rparr>
        [Pop, Add 5, Add 6, Add 7, Size, Pop])) = 1 \<and>
   MinHeap_size (snd (MinHeap_run \<lparr>heap = [0, 0, 0], heapSize = 2, realSize = 0\<rparr>
        [Pop, Add 5, Add 6, Add 7, Size, Pop])) = 1"
proof -
  let ?s0 = "\<lparr>heap = [0, 0, 0], heapSize = 2, realSize = 0\<rparr>"
  let ?cs = "[Pop, Add 5, Add 6, Add 7, Size, Pop]"
  have i1: "MaxHeap_init 2 = Some ?s0" by code_simp
  have i2: "MinHeap_init 2 = Some ?s0" by code_simp
  have a1: "successful_adds ?cs (fst (MaxHeap_run ?s0 ?cs)) = 2" by code_simp
  have p1: "successful_pops ?cs (fst (MaxHeap_run ?s0 ?cs)) = 1" by code_simp
  have a2: "successful_adds ?cs (fst (MinHeap_run ?s0 ?cs)) = 2" by code_simp
  have p2: "successful_pops ?cs (fst (MinHeap_run ?s0 ?cs)) = 1" by code_simp
  from size_accounting [of 2 ?s0 ?cs] i1 i2 show ?thesis
    unfolding a1 p1 a2 p2 by simp
qed

section \<open>Peek changes nothing\<close>

text \<open>
  Claim C8. On every heap, \<^verbatim>\<open>peek\<close> called twice in a row returns the same value both
  times, and \<^verbatim>\<open>size()\<close> after the two calls is what it was before: the call leaves the
  object as it is.
\<close>

theorem peek_twice:
  "fst (fst (MaxHeap_call (snd (MaxHeap_call s Peek)) Peek)) = fst (fst (MaxHeap_call s Peek)) \<and>
   MaxHeap_size (snd (MaxHeap_call (snd (MaxHeap_call s Peek)) Peek)) = MaxHeap_size s \<and>
   snd (MaxHeap_call s Peek) = s \<and>
   fst (fst (MinHeap_call (snd (MinHeap_call s Peek)) Peek)) = fst (fst (MinHeap_call s Peek)) \<and>
   MinHeap_size (snd (MinHeap_call (snd (MinHeap_call s Peek)) Peek)) = MinHeap_size s \<and>
   snd (MinHeap_call s Peek) = s"
  by (simp add: split_beta)

section \<open>The display\<close>

text \<open>
  Claim C9. On a well-formed heap with \<open>realSize > 0\<close>, \<^verbatim>\<open>toString\<close> produces, between
  square brackets and separated by commas, exactly the stored elements in array order
  (slots 1 to \<open>realSize\<close>, the level order of the tree), which is not the sorted order. On
  a heap with \<open>realSize = 0\<close> it produces the text \<^verbatim>\<open>No element!\<close>, which no heap with
  an element produces.
\<close>

theorem toString_level_order:
  "(well_formed s \<and> 0 < realSize s \<longrightarrow>
      MaxHeap_toString s = ''['' @ comma_join (map show_int (stored s)) @ '']'' \<and>
      MinHeap_toString s = ''['' @ comma_join (map show_int (stored s)) @ '']'') \<and>
   (realSize s = 0 \<longrightarrow>
      MaxHeap_toString s = ''No element!'' \<and> MinHeap_toString s = ''No element!'') \<and>
   (0 < realSize t \<longrightarrow>
      MaxHeap_toString t \<noteq> ''No element!'' \<and> MinHeap_toString t \<noteq> ''No element!'')"
proof (intro conjI impI)
  assume "well_formed s \<and> 0 < realSize s"
  then show "MaxHeap_toString s = ''['' @ comma_join (map show_int (stored s)) @ '']''"
    "MinHeap_toString s = ''['' @ comma_join (map show_int (stored s)) @ '']''"
    by (simp_all add: MaxHeap_toString_def MinHeap_toString_def toString_stored)
next
  assume "realSize s = 0"
  then show "MaxHeap_toString s = ''No element!''" "MinHeap_toString s = ''No element!''"
    by (simp_all add: MaxHeap_toString_def MinHeap_toString_def)
next
  assume "0 < realSize t"
  then show "MaxHeap_toString t \<noteq> ''No element!''" "MinHeap_toString t \<noteq> ''No element!''"
    by (simp_all add: MaxHeap_toString_def MinHeap_toString_def toString_loop_eq)
qed

theorem toString_level_order_witness:
  "well_formed \<lparr>heap = [0, 7, 6, 3, 1, 4, 0, 0, 0, 0, 0], heapSize = 10, realSize = 5\<rparr> \<and>
   0 < realSize \<lparr>heap = [0, 7, 6, 3, 1, 4, 0, 0, 0, 0, 0], heapSize = 10, realSize = 5\<rparr> \<and>
   stored \<lparr>heap = [0, 7, 6, 3, 1, 4, 0, 0, 0, 0, 0], heapSize = 10, realSize = 5\<rparr> =
     [7, 6, 3, 1, 4] \<and>
   MaxHeap_toString \<lparr>heap = [0, 7, 6, 3, 1, 4, 0, 0, 0, 0, 0], heapSize = 10, realSize = 5\<rparr> =
     ''[7,6,3,1,4]'' \<and>
   realSize \<lparr>heap = [0, 7, 6, 3, 1, 4, 0, 0, 0, 0, 0], heapSize = 10, realSize = 0\<rparr> = 0 \<and>
   MaxHeap_toString \<lparr>heap = [0, 7, 6, 3, 1, 4, 0, 0, 0, 0, 0], heapSize = 10, realSize = 0\<rparr> =
     ''No element!'' \<and>
   0 < realSize \<lparr>heap = [0, - 12], heapSize = 1, realSize = 1\<rparr> \<and>
   MinHeap_toString \<lparr>heap = [0, - 12], heapSize = 1, realSize = 1\<rparr> = ''[-12]'' \<and>
   MinHeap_toString \<lparr>heap = [0, - 12], heapSize = 1, realSize = 1\<rparr> \<noteq> ''No element!''"
proof -
  let ?s = "\<lparr>heap = [0, 7, 6, 3, 1, 4, 0, 0, 0, 0, 0], heapSize = 10, realSize = 5\<rparr>"
  let ?e = "\<lparr>heap = [0, 7, 6, 3, 1, 4, 0, 0, 0, 0, 0], heapSize = 10, realSize = 0\<rparr>"
  let ?t = "\<lparr>heap = [0, - 12], heapSize = 1, realSize = 1\<rparr>"
  have w: "well_formed ?s" by (simp add: well_formed_def)
  have st: "stored ?s = [7, 6, 3, 1, 4]" by (simp add: stored_def)
  have sh: "map show_int [7, 6, 3, 1, 4] = [''7'', ''6'', ''3'', ''1'', ''4'']" by code_simp
  have t: "MinHeap_toString ?t = ''[-12]''" by code_simp
  from toString_level_order [of ?s ?t] w st sh
  have "MaxHeap_toString ?s = ''[7,6,3,1,4]''" "MinHeap_toString ?t \<noteq> ''No element!''"
    by simp_all
  moreover from toString_level_order [of ?e ?t] have "MaxHeap_toString ?e = ''No element!''"
    by simp
  ultimately show ?thesis using w st t by simp
qed

section \<open>Stale slots are not observable\<close>

text \<open>
  Claim C10, as stated: two heap states that agree on \<open>realSize\<close> and on slots 1 to
  \<open>realSize\<close> give the same results for \<^verbatim>\<open>peek\<close>, \<^verbatim>\<open>pop\<close>, \<^verbatim>\<open>size\<close> and \<^verbatim>\<open>toString\<close>, and
  behave the same under any sequence of calls. The last part fails for a sequence with an
  \<^verbatim>\<open>add\<close> in it, which reads the capacity, and the capacity is not among the things agreed
  on: the MaxHeaps of capacity 1 and of capacity 2, each after \<^verbatim>\<open>add(5)\<close>, agree on
  \<open>realSize\<close> and on slot 1, but \<^verbatim>\<open>add(7)\<close> then \<^verbatim>\<open>peek()\<close> gives a message and 5 on the
  first, no message and 7 on the second.
\<close>

theorem same_content_different_capacity:
  "map_option (\<lambda>s. snd (MaxHeap_run s [Add 5])) (MaxHeap_init 1) =
     Some \<lparr>heap = [0, 5], heapSize = 1, realSize = 1\<rparr> \<and>
   map_option (\<lambda>s. snd (MaxHeap_run s [Add 5])) (MaxHeap_init 2) =
     Some \<lparr>heap = [0, 5, 0], heapSize = 2, realSize = 1\<rparr> \<and>
   well_formed \<lparr>heap = [0, 5], heapSize = 1, realSize = 1\<rparr> \<and>
   well_formed \<lparr>heap = [0, 5, 0], heapSize = 2, realSize = 1\<rparr> \<and>
   same_content \<lparr>heap = [0, 5], heapSize = 1, realSize = 1\<rparr>
                \<lparr>heap = [0, 5, 0], heapSize = 2, realSize = 1\<rparr> \<and>
   fst (MaxHeap_run \<lparr>heap = [0, 5], heapSize = 1, realSize = 1\<rparr> [Add 7, Peek]) =
     [(Void, [''Added too many Elements!'']), (IntVal 5, [])] \<and>
   fst (MaxHeap_run \<lparr>heap = [0, 5, 0], heapSize = 2, realSize = 1\<rparr> [Add 7, Peek]) =
     [(Void, []), (IntVal 7, [])]"
proof (intro conjI)
  show "map_option (\<lambda>s. snd (MaxHeap_run s [Add 5])) (MaxHeap_init 1) =
     Some \<lparr>heap = [0, 5], heapSize = 1, realSize = 1\<rparr>"
    by code_simp
  show "map_option (\<lambda>s. snd (MaxHeap_run s [Add 5])) (MaxHeap_init 2) =
     Some \<lparr>heap = [0, 5, 0], heapSize = 2, realSize = 1\<rparr>"
    by code_simp
  show "well_formed \<lparr>heap = [0, 5], heapSize = 1, realSize = 1\<rparr>"
    "well_formed \<lparr>heap = [0, 5, 0], heapSize = 2, realSize = 1\<rparr>"
    by (simp_all add: well_formed_def)
  show "same_content \<lparr>heap = [0, 5], heapSize = 1, realSize = 1\<rparr>
                \<lparr>heap = [0, 5, 0], heapSize = 2, realSize = 1\<rparr>"
    by code_simp
  show "fst (MaxHeap_run \<lparr>heap = [0, 5], heapSize = 1, realSize = 1\<rparr> [Add 7, Peek]) =
     [(Void, [''Added too many Elements!'']), (IntVal 5, [])]"
    by code_simp
  show "fst (MaxHeap_run \<lparr>heap = [0, 5, 0], heapSize = 2, realSize = 1\<rparr> [Add 7, Peek]) =
     [(Void, []), (IntVal 7, [])]"
    by code_simp
qed


text \<open>
  Claim C10, amended: slot 0 and the slots above \<open>realSize\<close> are never observable. Two
  well-formed heap states that agree on \<open>realSize\<close> and on slots 1 to \<open>realSize\<close>,
  whatever their capacities, give identical results (returned values and messages) for
  \<^verbatim>\<open>peek\<close>, \<^verbatim>\<open>pop\<close>, \<^verbatim>\<open>size\<close> and \<^verbatim>\<open>toString\<close> and for every sequence of such calls, and
  agree in the same way afterwards. When they agree on capacity as well, the same holds
  for every sequence of calls, \<^verbatim>\<open>add\<close> included. A single call is the sequence of length
  one.
\<close>

theorem stale_slots_not_observable:
  assumes "well_formed s" "well_formed t" "same_content s t"
    and "(\<exists>c \<in> set calls. is_add c) \<longrightarrow> heapSize s = heapSize t"
  shows "fst (MaxHeap_run s calls) = fst (MaxHeap_run t calls) \<and>
         same_content (snd (MaxHeap_run s calls)) (snd (MaxHeap_run t calls)) \<and>
         fst (MinHeap_run s calls) = fst (MinHeap_run t calls) \<and>
         same_content (snd (MinHeap_run s calls)) (snd (MinHeap_run t calls))"
proof -
  have "akin s t" using assms(1-3) by (simp add: akin_def)
  from MaxHeap_run_akin [OF this assms(4)] MinHeap_run_akin [OF this assms(4)]
  show ?thesis by (simp add: akin_def)
qed

theorem stale_slots_not_observable_witness:
  "map_option (\<lambda>s. snd (MaxHeap_run s [Add 6, Add 4, Add 5, Pop])) (MaxHeap_init 3) =
     Some \<lparr>heap = [0, 5, 4, 5], heapSize = 3, realSize = 2\<rparr> \<and>
   map_option (\<lambda>s. snd (MaxHeap_run s [Add 5, Add 4])) (MaxHeap_init 4) =
     Some \<lparr>heap = [0, 5, 4, 0, 0], heapSize = 4, realSize = 2\<rparr> \<and>
   map_option (\<lambda>s. snd (MaxHeap_run s [Add 5, Add 4])) (MaxHeap_init 3) =
     Some \<lparr>heap = [0, 5, 4, 0], heapSize = 3, realSize = 2\<rparr> \<and>
   same_content \<lparr>heap = [0, 5, 4, 5], heapSize = 3, realSize = 2\<rparr>
                \<lparr>heap = [0, 5, 4, 0, 0], heapSize = 4, realSize = 2\<rparr> \<and>
   same_content \<lparr>heap = [0, 5, 4, 5], heapSize = 3, realSize = 2\<rparr>
                \<lparr>heap = [0, 5, 4, 0], heapSize = 3, realSize = 2\<rparr> \<and>
   fst (MaxHeap_run \<lparr>heap = [0, 5, 4, 5], heapSize = 3, realSize = 2\<rparr>
          [ToString, Peek, Pop, Size, Peek, Pop, Pop, ToString]) =
   fst (MaxHeap_run \<lparr>heap = [0, 5, 4, 0, 0], heapSize = 4, realSize = 2\<rparr>
          [ToString, Peek, Pop, Size, Peek, Pop, Pop, ToString]) \<and>
   fst (MaxHeap_run \<lparr>heap = [0, 5, 4, 0, 0], heapSize = 4, realSize = 2\<rparr>
          [ToString, Peek, Pop, Size, Peek, Pop, Pop, ToString]) =
     [(StrVal ''[5,4]'', []), (IntVal 5, []), (IntVal 5, []), (IntVal 1, []), (IntVal 4, []),
      (IntVal 4, []), (IntVal (- 2147483648), [''Don't have any element'']),
      (StrVal ''No element!'', [])] \<and>
   fst (MaxHeap_run \<lparr>heap = [0, 5, 4, 5], heapSize = 3, realSize = 2\<rparr>
          [ToString, Pop, Peek, Add 8, Size, ToString]) =
   fst (MaxHeap_run \<lparr>heap = [0, 5, 4, 0], heapSize = 3, realSize = 2\<rparr>
          [ToString, Pop, Peek, Add 8, Size, ToString]) \<and>
   fst (MaxHeap_run \<lparr>heap = [0, 5, 4, 0], heapSize = 3, realSize = 2\<rparr>
          [ToString, Pop, Peek, Add 8, Size, ToString]) =
     [(StrVal ''[5,4]'', []), (IntVal 5, []), (IntVal 4, []), (Void, []), (IntVal 2, []),
      (StrVal ''[8,4]'', [])]"
proof -
  let ?s = "\<lparr>heap = [0, 5, 4, 5], heapSize = 3, realSize = 2\<rparr>"
  let ?t = "\<lparr>heap = [0, 5, 4, 0, 0], heapSize = 4, realSize = 2\<rparr>"
  let ?u = "\<lparr>heap = [0, 5, 4, 0], heapSize = 3, realSize = 2\<rparr>"
  let ?reads = "[ToString, Peek, Pop, Size, Peek, Pop, Pop, ToString]"
  let ?all = "[ToString, Pop, Peek, Add 8, Size, ToString]"
  have r1: "map_option (\<lambda>s. snd (MaxHeap_run s [Add 6, Add 4, Add 5, Pop])) (MaxHeap_init 3) =
     Some ?s" by code_simp
  have r2: "map_option (\<lambda>s. snd (MaxHeap_run s [Add 5, Add 4])) (MaxHeap_init 4) = Some ?t"
    by code_simp
  have r3: "map_option (\<lambda>s. snd (MaxHeap_run s [Add 5, Add 4])) (MaxHeap_init 3) = Some ?u"
    by code_simp
  have w: "well_formed ?s" "well_formed ?t" "well_formed ?u" by (simp_all add: well_formed_def)
  have c: "same_content ?s ?t" "same_content ?s ?u" by code_simp+
  have h1: "(\<exists>c \<in> set ?reads. is_add c) \<longrightarrow> heapSize ?s = heapSize ?t" by simp
  have h2: "(\<exists>c \<in> set ?all. is_add c) \<longrightarrow> heapSize ?s = heapSize ?u" by simp
  have v1: "fst (MaxHeap_run ?t ?reads) =
     [(StrVal ''[5,4]'', []), (IntVal 5, []), (IntVal 5, []), (IntVal 1, []), (IntVal 4, []),
      (IntVal 4, []), (IntVal (- 2147483648), [''Don't have any element'']),
      (StrVal ''No element!'', [])]" by code_simp
  have v2: "fst (MaxHeap_run ?u ?all) =
     [(StrVal ''[5,4]'', []), (IntVal 5, []), (IntVal 4, []), (Void, []), (IntVal 2, []),
      (StrVal ''[8,4]'', [])]" by code_simp
  from stale_slots_not_observable [OF w(1,2) c(1) h1]
  have e1: "fst (MaxHeap_run ?s ?reads) = fst (MaxHeap_run ?t ?reads)" by simp
  from stale_slots_not_observable [OF w(1,3) c(2) h2]
  have e2: "fst (MaxHeap_run ?s ?all) = fst (MaxHeap_run ?u ?all)" by simp
  show ?thesis
    using r1 r2 r3 c e1 e2 v1 v2 by (intro conjI)
qed

section \<open>The worked example\<close>

text \<open>
  Claim C7. A MaxHeap constructed with capacity 10 receives 1, 4, 3, 6, 7 in that order.
  Then \<^verbatim>\<open>size()\<close> is 5 and \<^verbatim>\<open>peek()\<close> is 7; \<^verbatim>\<open>pop()\<close> returns 7, after which \<^verbatim>\<open>size()\<close>
  is 4 and \<^verbatim>\<open>peek()\<close> is 6; four more calls of \<^verbatim>\<open>pop()\<close> return 6, 4, 3, 1, so that the
  five extractions yield 7, 6, 4, 3, 1. No call writes to \<^verbatim>\<open>cout\<close>.
\<close>

theorem MaxHeap_example_capacity_10:
  "map_option
     (\<lambda>s0. fst (MaxHeap_run s0
        [Add 1, Add 4, Add 3, Add 6, Add 7, Size, Peek, Pop, Size, Peek, Pop, Pop, Pop, Pop]))
     (MaxHeap_init 10)
   = Some [(Void, []), (Void, []), (Void, []), (Void, []), (Void, []),
           (IntVal 5, []), (IntVal 7, []), (IntVal 7, []), (IntVal 4, []), (IntVal 6, []),
           (IntVal 6, []), (IntVal 4, []), (IntVal 3, []), (IntVal 1, [])]"
  by code_simp

end
